theory Spec2Isabelle
  imports Main "HOL-Library.AList"
begin

section \<open>Data model of the payment processor\<close>

text \<open>
  The embedding follows \<^verbatim>\<open>processor.ts\<close> (class \<^verbatim>\<open>PaymentProcessor\<close>) and
  \<^verbatim>\<open>wallet.ts\<close> (\<^verbatim>\<open>BerryPayWallet.deriveAccount\<close>).

  Conventions of the model:
  \<^item> An amount of raw units is a decimal string in the source, always read through
    \<^verbatim>\<open>BigInt(...)\<close> and written through \<^verbatim>\<open>.toString()\<close>; the model keeps its
    integer value (\<open>int\<close>). The required amount of a charge is the string that
    \<^verbatim>\<open>tools.convert\<close> returned, which is \<^verbatim>\<open>"NaN"\<close> for a malformed amount: it is an
    \<open>int option\<close>, \<open>None\<close> when \<^verbatim>\<open>BigInt\<close> raises on it.
  \<^item> A \<^verbatim>\<open>Date\<close> that the code makes with \<^verbatim>\<open>new Date()\<close>, or reads from a string
    of the file, is modelled by its time value, milliseconds since the epoch
    (\<open>Date\<close>). A \<^verbatim>\<open>Date\<close> that is computed from a number or arrives with an event
    may be the invalid Date (\<open>MaybeDate\<close>): the deadline of a charge and the time
    stamp of a transaction.
  \<^item> An account index is a JavaScript number holding a natural number; adding one
    to it rounds as the arithmetic of doubles does (\<open>increment\<close>).
  \<^item> The record types carry the types of their time stamps as parameters: the live
    objects hold \<open>Date\<close> and \<open>MaybeDate\<close>, the objects that \<^verbatim>\<open>JSON.parse\<close> returns
    hold the strings that \<^verbatim>\<open>Date.prototype.toJSON\<close> wrote, and \<^verbatim>\<open>null\<close> (\<open>None\<close>)
    where it met the invalid Date.
  \<^item> A JavaScript \<^verbatim>\<open>Map\<close> whose iteration order is observed (\<^verbatim>\<open>charges\<close>) is an
    association list in insertion order: \<open>AList.update\<close> replaces the value of a
    present key in place and appends an absent one (\<^verbatim>\<open>Map.prototype.set\<close>),
    \<open>AList.delete\<close> removes a key, \<open>map_of\<close> looks a key up.
  \<^item> Every answer of the outside world (ledger node, HTTP endpoint, clock, random
    bytes) is an argument of the operation that consumes it; every call that leaves
    the processor (monitor, wallet RPC, HTTP POST, emitted event) is appended to the
    field \<open>trace\<close>. Each asynchronous method runs to completion before the next
    operation starts, as \<section>5 of the specification assumes; one clock value
    serves all reads of one synchronous stretch of code.
\<close>

type_synonym Date = int

datatype MaybeDate = ValidDate Date | InvalidDate

text \<open>A JavaScript number as far as the code needs it: an integer, or not finite.\<close>

datatype number = Finite int | NaN | PlusInfinity | MinusInfinity

datatype ChargeStatus = Pending | Partial | Completed | Expired | Swept

record 'e PaymentTransaction =
  tx_hash :: string
  tx_from :: string
  tx_amountRaw :: int
  tx_amountNano :: string
  tx_timestamp :: 'e

record ('d, 'e) Charge =
  charge_id :: string
  address :: string
  accountIndex :: nat
  amountRaw :: "int option"
  amountNano :: string
  receivedRaw :: int
  receivedNano :: string
  status :: ChargeStatus
  transactions :: "'e PaymentTransaction list"
  createdAt :: 'd
  expiresAt :: 'e
  completedAt :: "'d option"
  sweptAt :: "'d option"
  sweepTxHash :: "string option"
  webhookUrl :: "string option"
  webhookSent :: "bool option"
  metadata :: "string option"

record ('d, 'e) PersistedState =
  ps_nextAccountIndex :: nat
  ps_charges :: "('d, 'e) Charge list"
  ps_updatedAt :: string

text \<open>The objects of the running processor, and those that \<^verbatim>\<open>JSON.parse\<close> returns.\<close>

type_synonym LiveCharge = "(Date, MaybeDate) Charge"
type_synonym StoredCharge = "(string, string option) Charge"
type_synonym LiveState = "(Date, MaybeDate) PersistedState"
type_synonym StoredState = "(string, string option) PersistedState"

text \<open>
  \<^verbatim>\<open>new Date(value)\<close> for a number: the time value is kept when it lies within
  8.64e15 milliseconds of the epoch, and the Date is invalid otherwise.
\<close>

definition time_value :: "int \<Rightarrow> bool" where
  "time_value t = (\<bar>t\<bar> \<le> 8640000000000000)"

definition new_Date :: "number \<Rightarrow> MaybeDate" where
  "new_Date v = (case v of Finite t \<Rightarrow> if time_value t then ValidDate t else InvalidDate
                 | NaN \<Rightarrow> InvalidDate | PlusInfinity \<Rightarrow> InvalidDate
                 | MinusInfinity \<Rightarrow> InvalidDate)"

text \<open>The sum of a finite number and a number.\<close>

definition plus_number :: "int \<Rightarrow> number \<Rightarrow> number" where
  "plus_number a v = (case v of Finite t \<Rightarrow> Finite (a + t) | NaN \<Rightarrow> NaN
                      | PlusInfinity \<Rightarrow> PlusInfinity | MinusInfinity \<Rightarrow> MinusInfinity)"

text \<open>\<^verbatim>\<open>date < now\<close>: a comparison with the invalid Date is false.\<close>

definition date_before :: "MaybeDate \<Rightarrow> Date \<Rightarrow> bool" where
  "date_before d now = (case d of ValidDate t \<Rightarrow> t < now | InvalidDate \<Rightarrow> False)"

text \<open>
  \<^verbatim>\<open>n + 1\<close> for a natural number \<open>n\<close> that a double holds: exact below \<open>2^53\<close>;
  from there on the sum lies halfway between two doubles, or nearer to \<open>n\<close>, and is
  rounded to the one with the even significand.
\<close>

definition increment :: "nat \<Rightarrow> nat" where
  "increment n = (if n < 2 ^ 53 then n + 1
                  else if n < 2 ^ 54 \<and> odd (n div 2) then n + 2 else n)"

datatype error = Error string

subsection \<open>External libraries and collaborators\<close>

record Account =
  privateKey :: string
  publicKey :: string
  acct_address :: string

text \<open>
  The functions of the libraries the code calls and this repository does not define:
  \<^verbatim>\<open>nanoWallet.accounts(seed, i, i)[0]\<close>, \<^verbatim>\<open>tools.convert\<close> in both directions
  (\<^verbatim>\<open>nanoToRaw\<close> gives \<open>None\<close> when the string it returns is no integer), and the
  runtime's \<^verbatim>\<open>Date.prototype.toISOString\<close> and \<^verbatim>\<open>new Date(string)\<close>.
\<close>

record Lib =
  nano_accounts :: "string \<Rightarrow> nat \<Rightarrow> Account"
  rawToNano :: "int \<Rightarrow> string"
  nanoToRaw :: "string \<Rightarrow> int option"
  toISOString :: "Date \<Rightarrow> string"
  newDate :: "string \<Rightarrow> Date"

record BerryPayWallet =
  seed :: string
  accounts :: "nat \<rightharpoonup> Account"

text \<open>\<^verbatim>\<open>BerryPayWallet.deriveAccount\<close>: the cached address, or derive and cache.\<close>

definition deriveAccount :: "Lib \<Rightarrow> BerryPayWallet \<Rightarrow> nat \<Rightarrow> string \<times> BerryPayWallet" where
  "deriveAccount L w index =
     (case accounts w index of
        Some a \<Rightarrow> (acct_address a, w)
      | None \<Rightarrow>
          (let account = nano_accounts L (seed w) index
           in (acct_address account,
               w\<lparr>accounts := (accounts w)(index \<mapsto>
                    \<lparr>privateKey = privateKey account, publicKey = publicKey account,
                     acct_address = acct_address account\<rparr>)\<rparr>)))"

definition getAddress :: "Lib \<Rightarrow> BerryPayWallet \<Rightarrow> nat \<Rightarrow> string \<times> BerryPayWallet" where
  "getAddress L w index = deriveAccount L w index"

text \<open>The constructor of \<^verbatim>\<open>BerryPayWallet\<close> for a given seed: it derives account 0.\<close>

definition new_BerryPayWallet :: "Lib \<Rightarrow> string \<Rightarrow> BerryPayWallet" where
  "new_BerryPayWallet L s = snd (deriveAccount L \<lparr>seed = s, accounts = Map.empty\<rparr> 0)"

datatype FetchResult = Response nat string | FetchError string

text \<open>\<^verbatim>\<open>response.ok\<close> of the Fetch API: a status in the range 200 to 299.\<close>

definition response_ok :: "nat \<Rightarrow> bool" where
  "response_ok st = (200 \<le> st \<and> st \<le> 299)"

record WebhookPayload =
  wp_event :: string
  wp_id :: string
  wp_address :: string
  wp_amountNano :: string
  wp_amountRaw :: "int option"
  wp_receivedNano :: string
  wp_receivedRaw :: int
  wp_status :: ChargeStatus
  wp_sweepTxHash :: string
  wp_sweptAmountNano :: string
  wp_sweptAmountRaw :: int
  wp_completedAt :: "string option"
  wp_sweptAt :: "string option"
  wp_metadata :: "string option"
  wp_timestamp :: string

datatype Effect =
    MonitorAddAccount string
  | MonitorRemoveAccount string
  | WalletReceivePending nat
  | WalletReceive string int nat
  | WalletSend string int nat
  | Fetch string WebhookPayload
  | Emit string string

subsection \<open>The processor\<close>

text \<open>
  The fields of \<^verbatim>\<open>PaymentProcessor\<close>; \<open>disk\<close> is the content of the file at
  \<^verbatim>\<open>persistPath\<close> as \<^verbatim>\<open>JSON.parse\<close> reads it (\<open>None\<close>: no file), and
  \<open>saveDebounceTimer\<close> tells whether the debounce timer is armed.
\<close>

record PaymentProcessor =
  wallet :: BerryPayWallet
  charges :: "(string \<times> LiveCharge) list"
  addressToChargeId :: "string \<rightharpoonup> string"
  nextAccountIndex :: nat
  mainAccountIndex :: nat
  autoSweep :: bool
  saveDebounceTimer :: bool
  disk :: "StoredState option"
  trace :: "Effect list"

definition emit :: "string \<Rightarrow> string \<Rightarrow> PaymentProcessor \<Rightarrow> PaymentProcessor" where
  "emit name detail p = p\<lparr>trace := trace p @ [Emit name detail]\<rparr>"

definition call :: "Effect \<Rightarrow> PaymentProcessor \<Rightarrow> PaymentProcessor" where
  "call e p = p\<lparr>trace := trace p @ [e]\<rparr>"

text \<open>
  The wallet's RPC methods start with \<^verbatim>\<open>this.getAddress(accountIndex)\<close>, which
  fills the derivation cache.
\<close>

definition wallet_rpc :: "Lib \<Rightarrow> nat \<Rightarrow> PaymentProcessor \<Rightarrow> PaymentProcessor" where
  "wallet_rpc L index p = p\<lparr>wallet := snd (getAddress L (wallet p) index)\<rparr>"

subsection \<open>Persistence\<close>

text \<open>
  \<^verbatim>\<open>JSON.stringify\<close> writes every \<^verbatim>\<open>Date\<close> through \<^verbatim>\<open>toJSON\<close>, that is
  \<^verbatim>\<open>toISOString\<close>, and leaves out a field that is \<^verbatim>\<open>undefined\<close>.
\<close>

text \<open>\<^verbatim>\<open>Date.prototype.toJSON\<close>: the invalid Date is written as \<^verbatim>\<open>null\<close>.\<close>

definition toJSON_date :: "Lib \<Rightarrow> MaybeDate \<Rightarrow> string option" where
  "toJSON_date L d = (case d of ValidDate t \<Rightarrow> Some (toISOString L t) | InvalidDate \<Rightarrow> None)"

text \<open>\<^verbatim>\<open>new Date(value)\<close> for what \<^verbatim>\<open>JSON.parse\<close> read: \<^verbatim>\<open>null\<close> gives the epoch.\<close>

definition revive_date :: "Lib \<Rightarrow> string option \<Rightarrow> MaybeDate" where
  "revive_date L j = (case j of None \<Rightarrow> ValidDate 0 | Some s \<Rightarrow> ValidDate (newDate L s))"

definition toJSON_tx :: "Lib \<Rightarrow> MaybeDate PaymentTransaction \<Rightarrow> string option PaymentTransaction" where
  "toJSON_tx L t =
     \<lparr>tx_hash = tx_hash t, tx_from = tx_from t, tx_amountRaw = tx_amountRaw t,
      tx_amountNano = tx_amountNano t, tx_timestamp = toJSON_date L (tx_timestamp t)\<rparr>"

definition toJSON_charge :: "Lib \<Rightarrow> LiveCharge \<Rightarrow> StoredCharge" where
  "toJSON_charge L c =
     \<lparr>charge_id = charge_id c, address = address c, accountIndex = accountIndex c,
      amountRaw = amountRaw c, amountNano = amountNano c,
      receivedRaw = receivedRaw c, receivedNano = receivedNano c, status = status c,
      transactions = map (toJSON_tx L) (transactions c),
      createdAt = toISOString L (createdAt c), expiresAt = toJSON_date L (expiresAt c),
      completedAt = map_option (toISOString L) (completedAt c),
      sweptAt = map_option (toISOString L) (sweptAt c),
      sweepTxHash = sweepTxHash c, webhookUrl = webhookUrl c,
      webhookSent = webhookSent c, metadata = metadata c\<rparr>"

definition stringify :: "Lib \<Rightarrow> LiveState \<Rightarrow> StoredState" where
  "stringify L st =
     \<lparr>ps_nextAccountIndex = ps_nextAccountIndex st,
      ps_charges = map (toJSON_charge L) (ps_charges st),
      ps_updatedAt = ps_updatedAt st\<rparr>"

text \<open>The body of the two \<^verbatim>\<open>map\<close> calls of \<^verbatim>\<open>loadPersistedState\<close>.\<close>

definition revive_tx :: "Lib \<Rightarrow> string option PaymentTransaction \<Rightarrow> MaybeDate PaymentTransaction" where
  "revive_tx L t =
     \<lparr>tx_hash = tx_hash t, tx_from = tx_from t, tx_amountRaw = tx_amountRaw t,
      tx_amountNano = tx_amountNano t, tx_timestamp = revive_date L (tx_timestamp t)\<rparr>"

text \<open>\<^verbatim>\<open>c.completedAt ? new Date(c.completedAt) : undefined\<close>: the empty string is falsy.\<close>

definition revive_optional :: "Lib \<Rightarrow> string option \<Rightarrow> Date option" where
  "revive_optional L d =
     (case d of None \<Rightarrow> None | Some s \<Rightarrow> if s \<noteq> [] then Some (newDate L s) else None)"

definition revive_charge :: "Lib \<Rightarrow> StoredCharge \<Rightarrow> LiveCharge" where
  "revive_charge L c =
     \<lparr>charge_id = charge_id c, address = address c, accountIndex = accountIndex c,
      amountRaw = amountRaw c, amountNano = amountNano c,
      receivedRaw = receivedRaw c, receivedNano = receivedNano c, status = status c,
      transactions = map (revive_tx L) (transactions c),
      createdAt = newDate L (createdAt c), expiresAt = revive_date L (expiresAt c),
      completedAt = revive_optional L (completedAt c),
      sweptAt = revive_optional L (sweptAt c),
      sweepTxHash = sweepTxHash c, webhookUrl = webhookUrl c,
      webhookSent = webhookSent c, metadata = metadata c\<rparr>"

text \<open>\<^verbatim>\<open>loadPersistedState\<close>: \<open>None\<close> (the source's \<^verbatim>\<open>null\<close>) when there is no file.\<close>

definition loadPersistedState :: "Lib \<Rightarrow> StoredState option \<Rightarrow> LiveState option" where
  "loadPersistedState L file =
     (case file of
        None \<Rightarrow> None
      | Some state \<Rightarrow>
          Some \<lparr>ps_nextAccountIndex = ps_nextAccountIndex state,
                ps_charges = map (revive_charge L) (ps_charges state),
                ps_updatedAt = ps_updatedAt state\<rparr>)"

text \<open>\<^verbatim>\<open>savePersistedState\<close>: the new content of the file (the write is taken to succeed).\<close>

definition savePersistedState :: "Lib \<Rightarrow> LiveState \<Rightarrow> StoredState option" where
  "savePersistedState L state = Some (stringify L state)"

definition current_state :: "Lib \<Rightarrow> Date \<Rightarrow> PaymentProcessor \<Rightarrow> LiveState" where
  "current_state L now p =
     \<lparr>ps_nextAccountIndex = nextAccountIndex p,
      ps_charges = map snd (charges p),
      ps_updatedAt = toISOString L now\<rparr>"

text \<open>\<^verbatim>\<open>persistState\<close> arms (or re-arms) the 500 ms timer; its callback is \<open>saveTimerFires\<close>.\<close>

definition persistState :: "PaymentProcessor \<Rightarrow> PaymentProcessor" where
  "persistState p = p\<lparr>saveDebounceTimer := True\<rparr>"

definition saveTimerFires :: "Lib \<Rightarrow> Date \<Rightarrow> PaymentProcessor \<Rightarrow> PaymentProcessor" where
  "saveTimerFires L now p =
     (if saveDebounceTimer p
      then p\<lparr>disk := savePersistedState L (current_state L now p), saveDebounceTimer := False\<rparr>
      else p)"

definition persistStateNow :: "Lib \<Rightarrow> Date \<Rightarrow> PaymentProcessor \<Rightarrow> PaymentProcessor" where
  "persistStateNow L now p =
     p\<lparr>saveDebounceTimer := False, disk := savePersistedState L (current_state L now p)\<rparr>"

section \<open>Operations of the processor\<close>

subsection \<open>Construction\<close>

record ProcessorConfig =
  cfg_wallet :: BerryPayWallet
  cfg_mainAccountIndex :: "nat option"
  cfg_startingIndex :: "nat option"
  cfg_autoSweep :: "bool option"

text \<open>One round of the constructor's loop over \<^verbatim>\<open>persisted.charges\<close>.\<close>

definition register_charge :: "PaymentProcessor \<Rightarrow> LiveCharge \<Rightarrow> PaymentProcessor" where
  "register_charge p charge =
     p\<lparr>charges := AList.update (charge_id charge) charge (charges p),
       addressToChargeId := (addressToChargeId p)(address charge \<mapsto> charge_id charge)\<rparr>"

text \<open>
  The constructor, given the configuration and the content of the file at
  \<^verbatim>\<open>persistPath\<close>.
\<close>

definition constructor :: "Lib \<Rightarrow> ProcessorConfig \<Rightarrow> StoredState option \<Rightarrow> PaymentProcessor" where
  "constructor L config file =
     (let this = \<lparr>wallet = cfg_wallet config, charges = [], addressToChargeId = Map.empty,
                  nextAccountIndex = 0,
                  mainAccountIndex = (case cfg_mainAccountIndex config of None \<Rightarrow> 0 | Some i \<Rightarrow> i),
                  autoSweep = (case cfg_autoSweep config of None \<Rightarrow> True | Some b \<Rightarrow> b),
                  saveDebounceTimer = False, disk = file, trace = []\<rparr>
      in case loadPersistedState L file of
           Some persisted \<Rightarrow>
             emit ''state:loaded'' []
               (foldl register_charge
                  (this\<lparr>nextAccountIndex := ps_nextAccountIndex persisted\<rparr>)
                  (ps_charges persisted))
         | None \<Rightarrow>
             this\<lparr>nextAccountIndex :=
                    (case cfg_startingIndex config of None \<Rightarrow> 1000 | Some i \<Rightarrow> i)\<rparr>)"

subsection \<open>Lookups\<close>

definition getCharge :: "PaymentProcessor \<Rightarrow> string \<Rightarrow> LiveCharge option" where
  "getCharge p ident = map_of (charges p) ident"

text \<open>\<^verbatim>\<open>id ? this.charges.get(id) : undefined\<close>: the empty id is falsy.\<close>

definition getChargeByAddress :: "PaymentProcessor \<Rightarrow> string \<Rightarrow> LiveCharge option" where
  "getChargeByAddress p a =
     (case addressToChargeId p a of
        None \<Rightarrow> None
      | Some ident \<Rightarrow> if ident \<noteq> [] then map_of (charges p) ident else None)"

text \<open>
  The same lookup, returning also the key under which the object sits in
  \<^verbatim>\<open>this.charges\<close>: an assignment to a field of the object is an update at that key.
\<close>

definition entryByAddress :: "PaymentProcessor \<Rightarrow> string \<Rightarrow> (string \<times> LiveCharge) option" where
  "entryByAddress p a =
     (case addressToChargeId p a of
        None \<Rightarrow> None
      | Some ident \<Rightarrow>
          (case getChargeByAddress p a of None \<Rightarrow> None | Some charge \<Rightarrow> Some (ident, charge)))"

definition active :: "('d, 'e) Charge \<Rightarrow> bool" where
  "active c = (status c = Pending \<or> status c = Partial)"

definition listActiveCharges :: "PaymentProcessor \<Rightarrow> LiveCharge list" where
  "listActiveCharges p = filter active (map snd (charges p))"

text \<open>Truthiness of an optional string and of an optional boolean.\<close>

definition truthy_string :: "string option \<Rightarrow> bool" where
  "truthy_string s = (case s of None \<Rightarrow> False | Some u \<Rightarrow> u \<noteq> [])"

definition truthy_bool :: "bool option \<Rightarrow> bool" where
  "truthy_bool b = (case b of None \<Rightarrow> False | Some v \<Rightarrow> v)"

subsection \<open>createCharge\<close>

record CreateChargeOptions =
  opt_amountNano :: string
  opt_timeoutMs :: "number option"
  opt_metadata :: "string option"
  opt_webhookUrl :: "string option"

definition DEFAULT_TIMEOUT_MS :: int where
  "DEFAULT_TIMEOUT_MS = 30 * 60 * 1000"

text \<open>\<^verbatim>\<open>generateChargeId\<close>, given the hexadecimal text of the twelve random bytes.\<close>

definition generateChargeId :: "string \<Rightarrow> string" where
  "generateChargeId hex = ''chg_'' @ hex"

text \<open>
  \<^verbatim>\<open>createCharge\<close>, given the random bytes and the clock. \<^verbatim>\<open>nanoToRaw\<close> returns a
  string for every input, so a charge is stored and returned in every case.
\<close>

definition createCharge ::
  "Lib \<Rightarrow> string \<Rightarrow> Date \<Rightarrow> CreateChargeOptions \<Rightarrow> PaymentProcessor
     \<Rightarrow> LiveCharge \<times> PaymentProcessor" where
  "createCharge L hex now options p =
     (let ident = generateChargeId hex;
          index = nextAccountIndex p;
          p1 = p\<lparr>nextAccountIndex := increment (nextAccountIndex p)\<rparr>;
          derived = deriveAccount L (wallet p1) index;
          addr = fst derived;
          p2 = p1\<lparr>wallet := snd derived\<rparr>;
          raw = nanoToRaw L (opt_amountNano options);
          timeoutMs = (case opt_timeoutMs options of
                         None \<Rightarrow> Finite DEFAULT_TIMEOUT_MS | Some t \<Rightarrow> t);
          charge = \<lparr>charge_id = ident, address = addr, accountIndex = index,
                    amountRaw = raw, amountNano = opt_amountNano options,
                    receivedRaw = 0, receivedNano = ''0'', status = Pending,
                    transactions = [], createdAt = now,
                    expiresAt = new_Date (plus_number now timeoutMs),
                    completedAt = None, sweptAt = None, sweepTxHash = None,
                    webhookUrl = opt_webhookUrl options, webhookSent = None,
                    metadata = opt_metadata options\<rparr>;
          p3 = p2\<lparr>charges := AList.update ident charge (charges p2),
                  addressToChargeId := (addressToChargeId p2)(addr \<mapsto> ident)\<rparr>;
          p4 = call (MonitorAddAccount addr) p3;
          p5 = persistState p4
      in (charge, emit ''charge:created'' ident p5))"

subsection \<open>callWebhook and sweepCharge\<close>

text \<open>
  What the outside world answers during one \<^verbatim>\<open>sweepCharge\<close>:
  \<^verbatim>\<open>wallet.receivePending\<close> (\<open>Some e\<close>: it raises \<open>e\<close>), \<^verbatim>\<open>wallet.getBalance\<close>,
  \<^verbatim>\<open>wallet.send\<close> (\<open>Inl e\<close>: it raises, \<open>Inr h\<close>: the hash of the send block), the
  clock when \<^verbatim>\<open>send\<close> has resolved, the outcome of \<^verbatim>\<open>fetch\<close> and the clock when it has
  settled.
\<close>

record SweepEnv =
  receivePending_result :: "error option"
  getBalance_result :: int
  send_result :: "error + string"
  sweep_now :: Date
  fetch_result :: FetchResult
  fetch_now :: Date

definition webhook_payload :: "Lib \<Rightarrow> Date \<Rightarrow> LiveCharge \<Rightarrow> string \<Rightarrow> int \<Rightarrow> WebhookPayload" where
  "webhook_payload L now charge sweepHash amount =
     \<lparr>wp_event = ''charge.completed'',
      wp_id = charge_id charge, wp_address = address charge,
      wp_amountNano = amountNano charge, wp_amountRaw = amountRaw charge,
      wp_receivedNano = receivedNano charge, wp_receivedRaw = receivedRaw charge,
      wp_status = status charge, wp_sweepTxHash = sweepHash,
      wp_sweptAmountNano = rawToNano L amount, wp_sweptAmountRaw = amount,
      wp_completedAt = map_option (toISOString L) (completedAt charge),
      wp_sweptAt = map_option (toISOString L) (sweptAt charge),
      wp_metadata = metadata charge,
      wp_timestamp = toISOString L now\<rparr>"

text \<open>
  \<^verbatim>\<open>callWebhook(charge, sweepHash, amountRaw)\<close>; \<open>key\<close> is the key under which the
  object \<open>charge\<close> sits in \<^verbatim>\<open>this.charges\<close>.
\<close>

definition callWebhook ::
  "Lib \<Rightarrow> SweepEnv \<Rightarrow> string \<Rightarrow> LiveCharge \<Rightarrow> string \<Rightarrow> int \<Rightarrow> PaymentProcessor \<Rightarrow> PaymentProcessor" where
  "callWebhook L env key charge sweepHash amount p =
     (case webhookUrl charge of
        None \<Rightarrow> p
      | Some url \<Rightarrow>
          if url = [] then p
          else
            (let payload = webhook_payload L (sweep_now env) charge sweepHash amount;
                 p1 = call (Fetch url payload) p
             in case fetch_result env of
                  Response st txt \<Rightarrow>
                    if response_ok st
                    then
                      (let p2 = p1\<lparr>charges := AList.update key (charge\<lparr>webhookSent := Some True\<rparr>) (charges p1)\<rparr>;
                           p3 = persistStateNow L (fetch_now env) p2
                       in emit ''webhook:sent'' (charge_id charge) p3)
                    else emit ''webhook:failed'' (charge_id charge) p1
                | FetchError msg \<Rightarrow> emit ''webhook:error'' (charge_id charge) p1))"

definition error_message :: "error \<Rightarrow> string" where
  "error_message e = (case e of Error m \<Rightarrow> m)"

definition sweepCharge ::
  "Lib \<Rightarrow> SweepEnv \<Rightarrow> string \<Rightarrow> PaymentProcessor
     \<Rightarrow> (error + (string \<times> int) option) \<times> PaymentProcessor" where
  "sweepCharge L env chargeId p =
     (case map_of (charges p) chargeId of
        None \<Rightarrow> (Inl (Error ''Charge not found''), p)
      | Some charge \<Rightarrow>
          if status charge = Swept then (Inr None, p)
          else
            (let p1 = call (WalletReceivePending (accountIndex charge))
                        (wallet_rpc L (accountIndex charge) p)
             in case receivePending_result env of
                  Some e \<Rightarrow> (Inl e, emit ''error'' (error_message e) p1)
                | None \<Rightarrow>
                    (let balance = getBalance_result env
                     in if balance = 0 then (Inr None, p1)
                        else
                          (let main = getAddress L (wallet p1) (mainAccountIndex p1);
                               mainAddress = fst main;
                               p2 = call (WalletSend mainAddress balance (accountIndex charge))
                                      (p1\<lparr>wallet := snd main\<rparr>)
                           in case send_result env of
                                Inl e \<Rightarrow> (Inl e, emit ''error'' (error_message e) p2)
                              | Inr h \<Rightarrow>
                                  (let charge' = charge\<lparr>status := Swept,
                                                        sweptAt := Some (sweep_now env),
                                                        sweepTxHash := Some h\<rparr>;
                                       p3 = p2\<lparr>charges := AList.update chargeId charge' (charges p2),
                                               addressToChargeId :=
                                                 (addressToChargeId p2)(address charge := None)\<rparr>;
                                       p4 = call (MonitorRemoveAccount (address charge)) p3;
                                       p5 = persistStateNow L (sweep_now env) p4;
                                       p6 = emit ''charge:swept'' (charge_id charge) p5;
                                       p7 = (if truthy_string (webhookUrl charge')
                                                \<and> \<not> truthy_bool (webhookSent charge')
                                             then callWebhook L env chargeId charge' h balance p6
                                             else p6)
                                   in (Inr (Some (h, balance)), p7))))))"

subsection \<open>handlePayment\<close>

record PaymentEvent =
  pay_to :: string
  pay_from :: string
  pay_hash :: string
  pay_amount :: int
  pay_amountNano :: string
  pay_timestamp :: MaybeDate

text \<open>
  \<^verbatim>\<open>handlePayment\<close> up to the auto-sweep, which is one synchronous stretch; the
  result is the id handed to \<^verbatim>\<open>sweepCharge\<close>, if any, or the error that
  \<^verbatim>\<open>BigInt(charge.amountRaw)\<close> raises, after the payment has been recorded.
\<close>

definition applyPayment ::
  "Lib \<Rightarrow> Date \<Rightarrow> PaymentEvent \<Rightarrow> PaymentProcessor
     \<Rightarrow> (error + string option) \<times> PaymentProcessor" where
  "applyPayment L now payment p =
     (case entryByAddress p (pay_to payment) of
        None \<Rightarrow> (Inr None, p)
      | Some (key, charge) \<Rightarrow>
          if status charge = Completed \<or> status charge = Expired \<or> status charge = Swept
          then (Inr None, p)
          else
            (let tx = \<lparr>tx_hash = pay_hash payment, tx_from = pay_from payment,
                       tx_amountRaw = pay_amount payment,
                       tx_amountNano = pay_amountNano payment,
                       tx_timestamp = pay_timestamp payment\<rparr>;
                 previousReceived = receivedRaw charge;
                 newReceived = previousReceived + pay_amount payment;
                 charge1 = charge\<lparr>transactions := transactions charge @ [tx],
                                  receivedRaw := newReceived,
                                  receivedNano := rawToNano L newReceived\<rparr>;
                 p1 = emit ''charge:payment'' (charge_id charge)
                        (p\<lparr>charges := AList.update key charge1 (charges p)\<rparr>)
             in case amountRaw charge1 of
                  None \<Rightarrow> (Inl (Error ''SyntaxError: Cannot convert to a BigInt''), p1)
                | Some requiredAmount \<Rightarrow>
                    if newReceived \<ge> requiredAmount
                    then
                      (let charge2 = charge1\<lparr>status := Completed, completedAt := Some now\<rparr>;
                           p2 = persistStateNow L now
                                  (p1\<lparr>charges := AList.update key charge2 (charges p1)\<rparr>);
                           p3 = emit ''charge:completed'' (charge_id charge) p2
                       in (Inr (if autoSweep p3 then Some (charge_id charge2) else None), p3))
                    else
                      (let charge2 = charge1\<lparr>status := Partial\<rparr>;
                           p2 = persistState
                                  (p1\<lparr>charges := AList.update key charge2 (charges p1)\<rparr>)
                       in (Inr None, emit ''charge:partial'' (charge_id charge) p2))))"

definition handlePayment ::
  "Lib \<Rightarrow> Date \<Rightarrow> SweepEnv \<Rightarrow> PaymentEvent \<Rightarrow> PaymentProcessor
     \<Rightarrow> (error + unit) \<times> PaymentProcessor" where
  "handlePayment L now env payment p =
     (case applyPayment L now payment p of
        (Inl e, p1) \<Rightarrow> (Inl e, p1)
      | (Inr None, p1) \<Rightarrow> (Inr (), p1)
      | (Inr (Some ident), p1) \<Rightarrow>
          (case sweepCharge L env ident p1 of
             (Inl e, p2) \<Rightarrow> (Inl e, p2)
           | (Inr r, p2) \<Rightarrow> (Inr (), p2)))"

subsection \<open>checkMissedPayments\<close>

record PendingBlock =
  pb_hash :: string
  pb_amount :: int
  pb_source :: string

text \<open>
  What the ledger answers for one charge of the recovery scan: the pending blocks
  (\<^verbatim>\<open>getPendingBlocks\<close>), each with the outcome of its \<^verbatim>\<open>wallet.receive\<close>
  (\<open>Some e\<close>: it raises) and the clock afterwards; the clock after the loop; the
  answers for the sweep.
\<close>

record RecoveryEnv =
  pending_result :: "(PendingBlock \<times> error option \<times> Date) list"
  recovery_now :: Date
  recovery_sweep :: SweepEnv

text \<open>One round of \<^verbatim>\<open>for (const p of pending)\<close> for the charge at \<open>key\<close>.\<close>

definition receive_one ::
  "Lib \<Rightarrow> string \<Rightarrow> PaymentProcessor \<Rightarrow> PendingBlock \<times> error option \<times> Date \<Rightarrow> PaymentProcessor" where
  "receive_one L key p item =
     (case item of (pb, outcome, now) \<Rightarrow>
        (case map_of (charges p) key of
           None \<Rightarrow> p
         | Some charge \<Rightarrow>
             (let p1 = call (WalletReceive (pb_hash pb) (pb_amount pb) (accountIndex charge))
                         (wallet_rpc L (accountIndex charge) p)
              in case outcome of
                   Some e \<Rightarrow> emit ''error'' (error_message e) p1
                 | None \<Rightarrow>
                     (let tx = \<lparr>tx_hash = pb_hash pb, tx_from = pb_source pb,
                                tx_amountRaw = pb_amount pb,
                                tx_amountNano = rawToNano L (pb_amount pb),
                                tx_timestamp = ValidDate now\<rparr>;
                          newReceived = receivedRaw charge + pb_amount pb;
                          charge1 = charge\<lparr>transactions := transactions charge @ [tx],
                                           receivedRaw := newReceived,
                                           receivedNano := rawToNano L newReceived\<rparr>
                      in emit ''charge:payment'' (charge_id charge)
                           (p1\<lparr>charges := AList.update key charge1 (charges p1)\<rparr>)))))"

text \<open>
  The body of the outer loop up to the auto-sweep; the first component is the id
  handed to \<^verbatim>\<open>sweepCharge\<close>, if any. The error that \<^verbatim>\<open>BigInt(charge.amountRaw)\<close>
  raises is caught by the \<^verbatim>\<open>try\<close> around the body and emitted.
\<close>

definition recoverCharge_apply ::
  "Lib \<Rightarrow> RecoveryEnv \<Rightarrow> string \<Rightarrow> PaymentProcessor \<Rightarrow> string option \<times> PaymentProcessor" where
  "recoverCharge_apply L env key p =
     (case map_of (charges p) key of
        None \<Rightarrow> (None, p)
      | Some charge0 \<Rightarrow>
          (let p0 = wallet_rpc L (accountIndex charge0) p
           in if pending_result env = [] then (None, p0)
              else
                (let p1 = emit ''recovery:found'' (charge_id charge0) p0;
                     p2 = foldl (receive_one L key) p1 (pending_result env)
                 in case map_of (charges p2) key of
                      None \<Rightarrow> (None, p2)
                    | Some charge \<Rightarrow>
                        (case amountRaw charge of
                           None \<Rightarrow>
                             (None, emit ''error'' ''SyntaxError: Cannot convert to a BigInt'' p2)
                         | Some required \<Rightarrow>
                             if receivedRaw charge \<ge> required
                             then
                               (let charge' = charge\<lparr>status := Completed,
                                                     completedAt := Some (recovery_now env)\<rparr>;
                                    p3 = persistStateNow L (recovery_now env)
                                           (p2\<lparr>charges := AList.update key charge' (charges p2)\<rparr>);
                                    p4 = emit ''charge:completed'' (charge_id charge) p3
                                in (if autoSweep p4 then Some (charge_id charge') else None, p4))
                             else if receivedRaw charge > 0
                             then
                               (None, persistState
                                        (p2\<lparr>charges := AList.update key (charge\<lparr>status := Partial\<rparr>)
                                                         (charges p2)\<rparr>))
                             else (None, p2)))))"

text \<open>An error of the sweep is caught by the \<^verbatim>\<open>try\<close> around the loop body and emitted.\<close>

definition sweep_caught :: "Lib \<Rightarrow> SweepEnv \<Rightarrow> string \<Rightarrow> PaymentProcessor \<Rightarrow> PaymentProcessor" where
  "sweep_caught L env ident p =
     (case sweepCharge L env ident p of
        (Inl e, p') \<Rightarrow> emit ''error'' (error_message e) p'
      | (Inr r, p') \<Rightarrow> p')"

definition recoverCharge :: "Lib \<Rightarrow> RecoveryEnv \<Rightarrow> string \<Rightarrow> PaymentProcessor \<Rightarrow> PaymentProcessor" where
  "recoverCharge L env key p =
     (case recoverCharge_apply L env key p of
        (None, p1) \<Rightarrow> p1
      | (Some ident, p1) \<Rightarrow> sweep_caught L (recovery_sweep env) ident p1)"

text \<open>
  \<^verbatim>\<open>checkMissedPayments\<close>: the list of active charges is taken once, before the
  loop; \<open>envs\<close> gives the ledger's answers for each of them.
\<close>

definition checkMissedPayments ::
  "Lib \<Rightarrow> (string \<Rightarrow> RecoveryEnv) \<Rightarrow> PaymentProcessor \<Rightarrow> PaymentProcessor" where
  "checkMissedPayments L envs p =
     foldl (\<lambda>q key. recoverCharge L (envs key) key q) p
       (map fst (filter (\<lambda>entry. active (snd entry)) (charges p)))"

subsection \<open>checkExpiredCharges\<close>

text \<open>
  One round of the loop over \<^verbatim>\<open>this.charges.values()\<close>, for the object at
  \<open>key\<close>. The state carries \<^verbatim>\<open>stateChanged\<close> and the ids whose sweep has been
  started; a started sweep continues after the loop and after \<^verbatim>\<open>persistState\<close>,
  when its first \<^verbatim>\<open>await\<close> resolves.
\<close>

definition expire_one ::
  "Date \<Rightarrow> PaymentProcessor \<times> bool \<times> string list \<Rightarrow> string
     \<Rightarrow> PaymentProcessor \<times> bool \<times> string list" where
  "expire_one now acc key =
     (case acc of (p, stateChanged, started) \<Rightarrow>
        (case map_of (charges p) key of
           None \<Rightarrow> acc
         | Some charge \<Rightarrow>
             if (status charge = Pending \<or> status charge = Partial)
                \<and> date_before (expiresAt charge) now
             then
               (let p1 = emit ''charge:expired'' (charge_id charge)
                           (p\<lparr>charges := AList.update key (charge\<lparr>status := Expired\<rparr>) (charges p)\<rparr>)
                in if receivedRaw charge > 0 \<and> autoSweep p1
                   then (p1, True, started @ [charge_id charge])
                   else (call (MonitorRemoveAccount (address charge))
                           (p1\<lparr>addressToChargeId := (addressToChargeId p1)(address charge := None)\<rparr>),
                         True, started))
             else acc))"

definition checkExpiredCharges ::
  "Lib \<Rightarrow> Date \<Rightarrow> (string \<Rightarrow> SweepEnv) \<Rightarrow> PaymentProcessor \<Rightarrow> PaymentProcessor" where
  "checkExpiredCharges L now envs p =
     (case foldl (expire_one now) (p, False, []) (map fst (charges p)) of
        (p1, stateChanged, started) \<Rightarrow>
          foldl (\<lambda>q ident. sweep_caught L (envs ident) ident q)
            (if stateChanged then persistState p1 else p1) started)"

subsection \<open>deleteCharge and cleanupSweptCharges\<close>

definition deleteCharge :: "string \<Rightarrow> PaymentProcessor \<Rightarrow> (error + bool) \<times> PaymentProcessor" where
  "deleteCharge chargeId p =
     (case map_of (charges p) chargeId of
        None \<Rightarrow> (Inr False, p)
      | Some charge \<Rightarrow>
          if status charge \<noteq> Swept \<and> \<not> (status charge = Expired \<and> receivedRaw charge = 0)
          then (Inl (Error ''Cannot delete charge with pending funds. Sweep first.''), p)
          else
            (let p1 = p\<lparr>addressToChargeId := (addressToChargeId p)(address charge := None),
                        charges := AList.delete chargeId (charges p)\<rparr>;
                 p2 = call (MonitorRemoveAccount (address charge)) p1;
                 p3 = persistState p2
             in (Inr True, emit ''charge:deleted'' (charge_id charge) p3)))"

definition cleanupSweptCharges :: "PaymentProcessor \<Rightarrow> nat \<times> PaymentProcessor" where
  "cleanupSweptCharges p =
     (case foldl (\<lambda>acc entry.
                    if status (snd entry) = Swept
                    then ((fst acc)\<lparr>charges := AList.delete (fst entry) (charges (fst acc))\<rparr>,
                          snd acc + 1)
                    else acc)
                 (p, 0) (charges p) of
        (p1, count) \<Rightarrow> (count, if count > 0 then persistState p1 else p1))"

subsection \<open>Runs of the processor\<close>

datatype Op =
    CreateCharge string Date CreateChargeOptions
  | HandlePayment Date SweepEnv PaymentEvent
  | SweepCharge SweepEnv string
  | CheckExpiredCharges Date "string \<Rightarrow> SweepEnv"
  | CheckMissedPayments "string \<Rightarrow> RecoveryEnv"
  | DeleteCharge string
  | CleanupSweptCharges
  | SaveTimerFires Date

fun step :: "Lib \<Rightarrow> PaymentProcessor \<Rightarrow> Op \<Rightarrow> PaymentProcessor" where
  "step L p (CreateCharge hex now options) = snd (createCharge L hex now options p)"
| "step L p (HandlePayment now env payment) = snd (handlePayment L now env payment p)"
| "step L p (SweepCharge env ident) = snd (sweepCharge L env ident p)"
| "step L p (CheckExpiredCharges now envs) = checkExpiredCharges L now envs p"
| "step L p (CheckMissedPayments envs) = checkMissedPayments L envs p"
| "step L p (DeleteCharge ident) = snd (deleteCharge ident p)"
| "step L p CleanupSweptCharges = snd (cleanupSweptCharges p)"
| "step L p (SaveTimerFires now) = saveTimerFires L now p"

definition run :: "Lib \<Rightarrow> PaymentProcessor \<Rightarrow> Op list \<Rightarrow> PaymentProcessor" where
  "run L p ops = foldl (step L) p ops"

subsection \<open>checkChargeStatus and getMainAddress\<close>

text \<open>
  \<^verbatim>\<open>checkChargeStatus\<close>, given what \<^verbatim>\<open>getPendingBlocks\<close> and \<^verbatim>\<open>getBalance\<close>
  answer; the result is the charge, \<^verbatim>\<open>isPaid\<close>, \<^verbatim>\<open>remainingRaw\<close> and
  \<^verbatim>\<open>remainingNano\<close>.
\<close>

definition checkChargeStatus ::
  "Lib \<Rightarrow> PendingBlock list \<Rightarrow> int \<Rightarrow> string \<Rightarrow> PaymentProcessor
     \<Rightarrow> (error + LiveCharge \<times> bool \<times> int \<times> string) \<times> PaymentProcessor" where
  "checkChargeStatus L pending balance chargeId p =
     (case map_of (charges p) chargeId of
        None \<Rightarrow> (Inl (Error ''Charge not found''), p)
      | Some charge \<Rightarrow>
          (let p1 = wallet_rpc L (accountIndex charge) p;
               totalReceived = balance + foldl (\<lambda>sum pb. sum + pb_amount pb) 0 pending
           in case amountRaw charge of
                None \<Rightarrow> (Inl (Error ''SyntaxError: Cannot convert to a BigInt''), p1)
              | Some required \<Rightarrow>
                  (let remaining = (if required > totalReceived then required - totalReceived
                                    else 0);
                       isPaid = (totalReceived \<ge> required)
                   in (Inr (charge, isPaid, remaining, rawToNano L remaining), p1))))"

definition getMainAddress :: "Lib \<Rightarrow> PaymentProcessor \<Rightarrow> string" where
  "getMainAddress L p = fst (getAddress L (wallet p) (mainAccountIndex p))"

text \<open>\<^verbatim>\<open>createCharge\<close> called once for each request of a list, in sequence.\<close>

fun createCharges ::
  "Lib \<Rightarrow> (string \<times> Date \<times> CreateChargeOptions) list \<Rightarrow> PaymentProcessor
     \<Rightarrow> LiveCharge list \<times> PaymentProcessor" where
  "createCharges L [] p = ([], p)"
| "createCharges L (request # requests) p =
     (case request of (hex, now, options) \<Rightarrow>
        (case createCharge L hex now options p of (r, p1) \<Rightarrow>
           (case createCharges L requests p1 of (rs, p2) \<Rightarrow> (r # rs, p2))))"

section \<open>Notions used in the statements\<close>

text \<open>What an operation appended to the trace, and the HTTP POSTs among it.\<close>

definition new_effects :: "PaymentProcessor \<Rightarrow> PaymentProcessor \<Rightarrow> Effect list" where
  "new_effects p p' = drop (length (trace p)) (trace p')"

fun posts :: "Effect list \<Rightarrow> (string \<times> WebhookPayload) list" where
  "posts [] = []"
| "posts (Fetch url payload # es) = (url, payload) # posts es"
| "posts (e # es) = posts es"

text \<open>
  The ledger lets the sweep go through: \<^verbatim>\<open>receivePending\<close> resolves, the balance is
  not zero and \<^verbatim>\<open>send\<close> resolves with the hash \<open>h\<close>.
\<close>

definition sweep_succeeds :: "SweepEnv \<Rightarrow> string \<Rightarrow> bool" where
  "sweep_succeeds env h =
     (receivePending_result env = None \<and> getBalance_result env \<noteq> 0 \<and> send_result env = Inr h)"

text \<open>The POST is answered with a success status.\<close>

definition delivered :: "SweepEnv \<Rightarrow> bool" where
  "delivered env =
     (case fetch_result env of Response st txt \<Rightarrow> response_ok st | FetchError msg \<Rightarrow> False)"

text \<open>A notification target is configured and the notification-sent flag is not set.\<close>

definition notifies :: "LiveCharge \<Rightarrow> bool" where
  "notifies charge = (truthy_string (webhookUrl charge) \<and> \<not> truthy_bool (webhookSent charge))"

text \<open>The charge as a successful sweep leaves it, and the state at the end of the
  synchronous stretch that follows \<^verbatim>\<open>send\<close>, before the webhook is called.\<close>

definition swept_charge :: "SweepEnv \<Rightarrow> LiveCharge \<Rightarrow> string \<Rightarrow> LiveCharge" where
  "swept_charge env charge h =
     charge\<lparr>status := Swept, sweptAt := Some (sweep_now env), sweepTxHash := Some h\<rparr>"

definition swept_state ::
  "Lib \<Rightarrow> SweepEnv \<Rightarrow> string \<Rightarrow> LiveCharge \<Rightarrow> string \<Rightarrow> PaymentProcessor \<Rightarrow> PaymentProcessor" where
  "swept_state L env chargeId charge h p =
     (let p1 = call (WalletReceivePending (accountIndex charge))
                 (wallet_rpc L (accountIndex charge) p);
          main = getAddress L (wallet p1) (mainAccountIndex p1);
          p2 = call (WalletSend (fst main) (getBalance_result env) (accountIndex charge))
                 (p1\<lparr>wallet := snd main\<rparr>);
          p3 = p2\<lparr>charges := AList.update chargeId (swept_charge env charge h) (charges p2),
                  addressToChargeId := (addressToChargeId p2)(address charge := None)\<rparr>;
          p4 = call (MonitorRemoveAccount (address charge)) p3;
          p5 = persistStateNow L (sweep_now env) p4
      in emit ''charge:swept'' (charge_id charge) p5)"

definition webhook_event :: "SweepEnv \<Rightarrow> string" where
  "webhook_event env =
     (case fetch_result env of
        Response st txt \<Rightarrow> if response_ok st then ''webhook:sent'' else ''webhook:failed''
      | FetchError msg \<Rightarrow> ''webhook:error'')"

subsection \<open>The state machine of the specification\<close>

definition status_of :: "PaymentProcessor \<Rightarrow> string \<Rightarrow> ChargeStatus option" where
  "status_of p k = map_option status (map_of (charges p) k)"

text \<open>The transitions a payment may cause, those of the deadline, and those of a sweep
  as the specification draws them.\<close>

fun payment_edge :: "ChargeStatus \<Rightarrow> ChargeStatus \<Rightarrow> bool" where
  "payment_edge Pending Partial = True"
| "payment_edge Pending Completed = True"
| "payment_edge Partial Completed = True"
| "payment_edge a b = False"

fun expiry_edge :: "ChargeStatus \<Rightarrow> ChargeStatus \<Rightarrow> bool" where
  "expiry_edge Pending Expired = True"
| "expiry_edge Partial Expired = True"
| "expiry_edge a b = False"

fun spec_sweep_edge :: "ChargeStatus \<Rightarrow> ChargeStatus \<Rightarrow> bool" where
  "spec_sweep_edge Completed Swept = True"
| "spec_sweep_edge Expired Swept = True"
| "spec_sweep_edge a b = False"

text \<open>The graph of \<section>4.2.\<close>

definition edge :: "ChargeStatus \<Rightarrow> ChargeStatus \<Rightarrow> bool" where
  "edge a b = (payment_edge a b \<or> expiry_edge a b \<or> spec_sweep_edge a b)"

text \<open>What \<^verbatim>\<open>sweepCharge\<close> does: any status but \<open>Swept\<close> may become \<open>Swept\<close>.\<close>

fun sweep_edge :: "ChargeStatus \<Rightarrow> ChargeStatus \<Rightarrow> bool" where
  "sweep_edge Swept b = False"
| "sweep_edge a Swept = True"
| "sweep_edge a b = False"

text \<open>Reachability in the graph, each status from itself included.\<close>

fun forward :: "ChargeStatus \<Rightarrow> ChargeStatus \<Rightarrow> bool" where
  "forward Pending b = True"
| "forward Partial b = (b \<noteq> Pending)"
| "forward Completed b = (b = Completed \<or> b = Swept)"
| "forward Expired b = (b = Expired \<or> b = Swept)"
| "forward Swept b = (b = Swept)"

text \<open>
  Between two states, the status of every charge present in both is unchanged or
  changes along \<open>R\<close>.
\<close>

definition moves_along ::
  "(ChargeStatus \<Rightarrow> ChargeStatus \<Rightarrow> bool) \<Rightarrow> PaymentProcessor \<Rightarrow> PaymentProcessor \<Rightarrow> bool" where
  "moves_along R p p' =
     list_all (\<lambda>k. case status_of p k of
                      None \<Rightarrow> True
                    | Some a \<Rightarrow> (case status_of p' k of None \<Rightarrow> True | Some b \<Rightarrow> a = b \<or> R a b))
       (map fst (charges p))"

fun is_create :: "Op \<Rightarrow> bool" where
  "is_create (CreateCharge hex now options) = True"
| "is_create op = False"

subsection \<open>Invariants of the charge store\<close>

text \<open>The received amount of a charge is the sum of its recorded transactions.\<close>

definition ledger_ok :: "('d, 'e) Charge \<Rightarrow> bool" where
  "ledger_ok c = (receivedRaw c = sum_list (map tx_amountRaw (transactions c)))"

definition ledgers_ok :: "PaymentProcessor \<Rightarrow> bool" where
  "ledgers_ok p =
     list_all (\<lambda>k. case map_of (charges p) k of None \<Rightarrow> True | Some c \<Rightarrow> ledger_ok c)
       (map fst (charges p))"

text \<open>A \<^verbatim>\<open>Map\<close> holds a key once, and every charge sits under its own id.\<close>

definition store_ok :: "PaymentProcessor \<Rightarrow> bool" where
  "store_ok p =
     (distinct (map fst (charges p))
      \<and> list_all (\<lambda>entry. fst entry = charge_id (snd entry)) (charges p))"

text \<open>The derivation cache of a wallet holds only addresses that the library derives.\<close>

definition wallet_ok :: "Lib \<Rightarrow> BerryPayWallet \<Rightarrow> bool" where
  "wallet_ok L w =
     (\<forall>i a. accounts w i = Some a \<longrightarrow> acct_address a = acct_address (nano_accounts L (seed w) i))"

definition derived_address :: "Lib \<Rightarrow> BerryPayWallet \<Rightarrow> nat \<Rightarrow> string" where
  "derived_address L w i = acct_address (nano_accounts L (seed w) i)"

text \<open>The runtime reads back the time value of every Date it writes, and writes no
  empty string.\<close>

definition dates_roundtrip :: "Lib \<Rightarrow> bool" where
  "dates_roundtrip L =
     (\<forall>d. time_value d \<longrightarrow> newDate L (toISOString L d) = d \<and> toISOString L d \<noteq> [])"

text \<open>Every Date of a transaction, of a charge, of a state is a valid Date.\<close>

definition valid_date :: "MaybeDate \<Rightarrow> bool" where
  "valid_date d = (case d of ValidDate t \<Rightarrow> time_value t | InvalidDate \<Rightarrow> False)"

definition valid_option :: "Date option \<Rightarrow> bool" where
  "valid_option d = (case d of None \<Rightarrow> True | Some t \<Rightarrow> time_value t)"

definition charge_dates_valid :: "LiveCharge \<Rightarrow> bool" where
  "charge_dates_valid c =
     (time_value (createdAt c) \<and> valid_date (expiresAt c)
      \<and> valid_option (completedAt c) \<and> valid_option (sweptAt c)
      \<and> list_all (\<lambda>t. valid_date (tx_timestamp t)) (transactions c))"

definition dates_valid :: "LiveState \<Rightarrow> bool" where
  "dates_valid state = list_all charge_dates_valid (ps_charges state)"



subsection \<open>How an operation changes the charge store\<close>

text \<open>
  One charge before and after: identity, address and account are kept, the status
  is kept or changes along \<open>R\<close>, and a balanced ledger stays balanced.
\<close>

definition charge_step ::
  "(ChargeStatus \<Rightarrow> ChargeStatus \<Rightarrow> bool) \<Rightarrow> LiveCharge \<Rightarrow> LiveCharge \<Rightarrow> bool" where
  "charge_step R c c' =
     (charge_id c' = charge_id c \<and> address c' = address c \<and> accountIndex c' = accountIndex c
      \<and> (status c' = status c \<or> R (status c) (status c'))
      \<and> (ledger_ok c \<longrightarrow> ledger_ok c'))"

text \<open>
  Two charge stores, before and after: no key is doubled, keys outside \<open>K\<close> keep
  their charge, and every charge of the second store comes from the charge under the
  same key of the first by \<open>charge_step R\<close>.
\<close>

definition evolves ::
  "(ChargeStatus \<Rightarrow> ChargeStatus \<Rightarrow> bool) \<Rightarrow> string set
     \<Rightarrow> (string \<times> LiveCharge) list \<Rightarrow> (string \<times> LiveCharge) list \<Rightarrow> bool" where
  "evolves R K al al' =
     ((distinct (map fst al) \<longrightarrow> distinct (map fst al'))
      \<and> (\<forall>k. (k \<notin> K \<longrightarrow> map_of al' k = map_of al k)
             \<and> (\<forall>c'. map_of al' k = Some c' \<longrightarrow> (\<exists>c. map_of al k = Some c \<and> charge_step R c c'))))"

definition no_edge :: "ChargeStatus \<Rightarrow> ChargeStatus \<Rightarrow> bool" where
  "no_edge a b = False"

definition any_edge :: "ChargeStatus \<Rightarrow> ChargeStatus \<Rightarrow> bool" where
  "any_edge a b = True"

text \<open>The status changes of the recovery scan, which sets the status of whatever
  charge it is given.\<close>

definition recovery_edge :: "ChargeStatus \<Rightarrow> ChargeStatus \<Rightarrow> bool" where
  "recovery_edge a b = (payment_edge a b \<or> \<not> (a = Pending \<or> a = Partial))"

section \<open>A concrete processor\<close>

text \<open>
  A library with an injective derivation and a unary date format, a configuration
  without a snapshot, one charge of 10 raw units with a notification target, a
  ledger that lets every sweep go through, and a payment of the full amount.
\<close>

definition L0 :: Lib where
  "L0 = \<lparr>nano_accounts = (\<lambda>s i. \<lparr>privateKey = ''k'', publicKey = ''p'',
                                   acct_address = ''nano_'' @ replicate i (CHR ''1'')\<rparr>),
         rawToNano = (\<lambda>n. ''n''),
         nanoToRaw = (\<lambda>s. if s = [] then None else Some (int (length s) * 10)),
         toISOString = (\<lambda>d. (if d < 0 then CHR ''-'' else CHR ''+'') # replicate (nat \<bar>d\<bar>) (CHR ''I'')),
         newDate = (\<lambda>s. case s of [] \<Rightarrow> 0
                         | c # r \<Rightarrow> if c = CHR ''-'' then - int (length r) else int (length r))\<rparr>"

definition cfg0 :: ProcessorConfig where
  "cfg0 = \<lparr>cfg_wallet = \<lparr>seed = ''s'', accounts = Map.empty\<rparr>, cfg_mainAccountIndex = None,
           cfg_startingIndex = Some 1, cfg_autoSweep = None\<rparr>"

definition P0 :: PaymentProcessor where
  "P0 = constructor L0 cfg0 None"

definition opts0 :: CreateChargeOptions where
  "opts0 = \<lparr>opt_amountNano = ''1'', opt_timeoutMs = Some (Finite 5), opt_metadata = None,
            opt_webhookUrl = Some ''u''\<rparr>"

definition charge0 :: "LiveCharge" where
  "charge0 = \<lparr>charge_id = ''chg_a'', address = ''nano_1'', accountIndex = 1,
              amountRaw = Some 10, amountNano = ''1'', receivedRaw = 0, receivedNano = ''0'',
              status = Pending, transactions = [], createdAt = 1, expiresAt = ValidDate 6,
              completedAt = None, sweptAt = None, sweepTxHash = None,
              webhookUrl = Some ''u'', webhookSent = None, metadata = None\<rparr>"

definition P1 :: PaymentProcessor where
  "P1 = snd (createCharge L0 ''a'' 1 opts0 P0)"


definition cfg_big :: ProcessorConfig where
  "cfg_big = cfg0\<lparr>cfg_startingIndex := Some (2 ^ 53)\<rparr>"

definition env0 :: SweepEnv where
  "env0 = \<lparr>receivePending_result = None, getBalance_result = 10, send_result = Inr ''h'',
           sweep_now = 3, fetch_result = Response 200 ''OK'', fetch_now = 4\<rparr>"

definition pay0 :: PaymentEvent where
  "pay0 = \<lparr>pay_to = ''nano_1'', pay_from = ''nano_x'', pay_hash = ''t'', pay_amount = 10,
           pay_amountNano = ''1'', pay_timestamp = ValidDate 2\<rparr>"

definition pb0 :: PendingBlock where
  "pb0 = \<lparr>pb_hash = ''t'', pb_amount = 10, pb_source = ''nano_x''\<rparr>"

definition renv0 :: RecoveryEnv where
  "renv0 = \<lparr>pending_result = [(pb0, None, 2)], recovery_now = 2, recovery_sweep = env0\<rparr>"

section \<open>Basic facts\<close>

lemmas basic_defs = emit_def call_def persistState_def persistStateNow_def wallet_rpc_def
  savePersistedState_def

lemma deriveAccount_again:
  "fst (deriveAccount L (snd (deriveAccount L w i)) j) = fst (deriveAccount L w j)"
  by (auto simp: deriveAccount_def Let_def split: option.splits)

lemma getAddress_again:
  "fst (getAddress L (snd (getAddress L w i)) j) = fst (getAddress L w j)"
  by (simp add: getAddress_def deriveAccount_again)

lemma posts_append: "posts (xs @ ys) = posts xs @ posts ys"
  by (induction xs rule: posts.induct) auto

lemma P0_eq:
  "P0 = \<lparr>wallet = \<lparr>seed = ''s'', accounts = Map.empty\<rparr>, charges = [], addressToChargeId = Map.empty,
         nextAccountIndex = 1, mainAccountIndex = 0, autoSweep = True, saveDebounceTimer = False,
         disk = None, trace = []\<rparr>"
  by (simp add: P0_def constructor_def cfg0_def loadPersistedState_def)

lemma P1_fields:
  "charges P1 = [(''chg_a'', charge0)]"
  "addressToChargeId P1 = [''nano_1'' \<mapsto> ''chg_a'']"
  "nextAccountIndex P1 = 2"
  "mainAccountIndex P1 = 0"
  "autoSweep P1"
  "saveDebounceTimer P1"
  "disk P1 = None"
  "trace P1 = [MonitorAddAccount ''nano_1'', Emit ''charge:created'' ''chg_a'']"
  "seed (wallet P1) = ''s''"
  by (simp_all add: P1_def P0_eq createCharge_def L0_def opts0_def charge0_def generateChargeId_def
        deriveAccount_def basic_defs Let_def increment_def new_Date_def plus_number_def
        time_value_def)

lemma charge0_fields:
  "status charge0 = Pending" "receivedRaw charge0 = 0" "address charge0 = ''nano_1''"
  "accountIndex charge0 = 1" "webhookUrl charge0 = Some ''u''" "webhookSent charge0 = None"
  "charge_id charge0 = ''chg_a''" "amountRaw charge0 = Some 10" "transactions charge0 = []"
  "expiresAt charge0 = ValidDate 6" "createdAt charge0 = 1"
  by (simp_all add: charge0_def)

lemma env0_fields:
  "receivePending_result env0 = None" "getBalance_result env0 = 10" "send_result env0 = Inr ''h''"
  "sweep_now env0 = 3" "fetch_result env0 = Response 200 ''OK''" "fetch_now env0 = 4"
  by (simp_all add: env0_def)

section \<open>deleteCharge\<close>

text \<open>
  Claim C10. For an id that is not in the charge store, \<^verbatim>\<open>deleteCharge\<close> returns
  \<^verbatim>\<open>false\<close> without raising and leaves the whole processor as it is: the charge
  map, the address index, the file and the debounce timer. \<^verbatim>\<open>sweepCharge\<close> and
  \<^verbatim>\<open>checkChargeStatus\<close> raise "Charge not found" for the same id.
\<close>

theorem deleteCharge_unknown_id:
  assumes "map_of (charges p) chargeId = None"
  shows "deleteCharge chargeId p = (Inr False, p)
     \<and> sweepCharge L env chargeId p = (Inl (Error ''Charge not found''), p)
     \<and> checkChargeStatus L pending balance chargeId p = (Inl (Error ''Charge not found''), p)"
  using assms by (simp add: deleteCharge_def sweepCharge_def checkChargeStatus_def)

theorem deleteCharge_unknown_id_witness:
  "map_of (charges P1) ''chg_b'' = None
   \<and> deleteCharge ''chg_b'' P1 = (Inr False, P1)
   \<and> sweepCharge L0 env0 ''chg_b'' P1 = (Inl (Error ''Charge not found''), P1)
   \<and> checkChargeStatus L0 [] 0 ''chg_b'' P1 = (Inl (Error ''Charge not found''), P1)"
proof -
  have h: "map_of (charges P1) ''chg_b'' = None"
    by (simp add: P1_fields)
  show ?thesis
    using h deleteCharge_unknown_id [OF h, of L0 env0 "[]" 0] by simp
qed

text \<open>
  Claim C7. For a charge of the store, \<^verbatim>\<open>deleteCharge\<close> returns \<^verbatim>\<open>true\<close> exactly
  when the status is swept, or expired with nothing received; it then removes the
  charge and the registration of its address (in the address index and at the
  monitor). In every other status it raises and the processor is unchanged.
\<close>

theorem deleteCharge_terminal_only:
  assumes "map_of (charges p) chargeId = Some charge"
  shows "if status charge = Swept \<or> (status charge = Expired \<and> receivedRaw charge = 0)
      then fst (deleteCharge chargeId p) = Inr True
           \<and> map_of (charges (snd (deleteCharge chargeId p))) chargeId = None
           \<and> addressToChargeId (snd (deleteCharge chargeId p)) (address charge) = None
           \<and> MonitorRemoveAccount (address charge)
                \<in> set (new_effects p (snd (deleteCharge chargeId p)))
      else deleteCharge chargeId p
             = (Inl (Error ''Cannot delete charge with pending funds. Sweep first.''), p)"
  using assms
  by (auto simp: deleteCharge_def basic_defs Let_def new_effects_def AList.delete_conv')

theorem deleteCharge_terminal_only_witness:
  "map_of (charges P1) ''chg_a'' = Some charge0
   \<and> deleteCharge ''chg_a'' P1
       = (Inl (Error ''Cannot delete charge with pending funds. Sweep first.''), P1)"
proof -
  have h: "map_of (charges P1) ''chg_a'' = Some charge0"
    by (simp add: P1_fields)
  show ?thesis
    using h deleteCharge_terminal_only [OF h] by (simp add: charge0_fields)
qed

section \<open>sweepCharge\<close>

text \<open>
  Claim C5. \<^verbatim>\<open>sweepCharge\<close> raises "Charge not found" for an id without a charge;
  for a charge that is already swept it returns \<^verbatim>\<open>null\<close> and the processor is
  unchanged; for a charge whose balance after \<^verbatim>\<open>receivePending\<close> is zero it returns
  \<^verbatim>\<open>null\<close> and the charge store, the address index, the file and the timer are
  unchanged (the only trace of the call is the request to the ledger).
\<close>

theorem sweepCharge_nothing_to_sweep:
  "(map_of (charges p) chargeId = None \<longrightarrow>
      sweepCharge L env chargeId p = (Inl (Error ''Charge not found''), p))
   \<and> (\<forall>charge. map_of (charges p) chargeId = Some charge \<and> status charge = Swept \<longrightarrow>
        sweepCharge L env chargeId p = (Inr None, p))
   \<and> (\<forall>charge. map_of (charges p) chargeId = Some charge \<and> status charge \<noteq> Swept
         \<and> receivePending_result env = None \<and> getBalance_result env = 0 \<longrightarrow>
        fst (sweepCharge L env chargeId p) = Inr None
        \<and> charges (snd (sweepCharge L env chargeId p)) = charges p
        \<and> addressToChargeId (snd (sweepCharge L env chargeId p)) = addressToChargeId p
        \<and> disk (snd (sweepCharge L env chargeId p)) = disk p
        \<and> saveDebounceTimer (snd (sweepCharge L env chargeId p)) = saveDebounceTimer p
        \<and> new_effects p (snd (sweepCharge L env chargeId p))
            = [WalletReceivePending (accountIndex charge)])"
  by (auto simp: sweepCharge_def basic_defs Let_def new_effects_def)

theorem sweepCharge_nothing_to_sweep_witness:
  "map_of (charges P1) ''chg_a'' = Some charge0 \<and> status charge0 \<noteq> Swept
   \<and> fst (sweepCharge L0 (env0\<lparr>getBalance_result := 0\<rparr>) ''chg_a'' P1) = Inr None
   \<and> charges (snd (sweepCharge L0 (env0\<lparr>getBalance_result := 0\<rparr>) ''chg_a'' P1)) = charges P1"
  using sweepCharge_nothing_to_sweep [of P1 "''chg_a''" L0 "env0\<lparr>getBalance_result := 0\<rparr>"]
  by (simp add: P1_fields charge0_fields env0_fields)

lemma sweepCharge_success_unfold:
  assumes "map_of (charges p) chargeId = Some charge" "status charge \<noteq> Swept" "sweep_succeeds env h"
  shows "sweepCharge L env chargeId p =
     (Inr (Some (h, getBalance_result env)),
      if notifies charge
      then callWebhook L env chargeId (swept_charge env charge h) h (getBalance_result env)
             (swept_state L env chargeId charge h p)
      else swept_state L env chargeId charge h p)"
  using assms
  by (simp add: sweepCharge_def sweep_succeeds_def notifies_def Let_def swept_state_def swept_charge_def)

lemma swept_charge_fields:
  "webhookUrl (swept_charge env c h) = webhookUrl c"
  "webhookSent (swept_charge env c h) = webhookSent c"
  "status (swept_charge env c h) = Swept"
  "sweptAt (swept_charge env c h) = Some (sweep_now env)"
  "sweepTxHash (swept_charge env c h) = Some h"
  "charge_id (swept_charge env c h) = charge_id c"
  by (simp_all add: swept_charge_def)

lemma swept_state_fields:
  "charges (swept_state L env k c h p) = AList.update k (swept_charge env c h) (charges p)"
  "addressToChargeId (swept_state L env k c h p) = (addressToChargeId p)(address c := None)"
  "nextAccountIndex (swept_state L env k c h p) = nextAccountIndex p"
  "saveDebounceTimer (swept_state L env k c h p) = False"
  "disk (swept_state L env k c h p) =
      savePersistedState L (current_state L (sweep_now env) (swept_state L env k c h p))"
  "trace (swept_state L env k c h p) =
      trace p @ [WalletReceivePending (accountIndex c),
                 WalletSend (getMainAddress L p) (getBalance_result env) (accountIndex c),
                 MonitorRemoveAccount (address c), Emit ''charge:swept'' (charge_id c)]"
  by (simp_all add: swept_state_def basic_defs Let_def current_state_def
        getMainAddress_def getAddress_again)

lemma callWebhook_fields:
  "addressToChargeId (callWebhook L env k c h b q) = addressToChargeId q"
  "nextAccountIndex (callWebhook L env k c h b q) = nextAccountIndex q"
  "charges (callWebhook L env k c h b q) =
     (if truthy_string (webhookUrl c) \<and> delivered env
      then AList.update k (c\<lparr>webhookSent := Some True\<rparr>) (charges q) else charges q)"
  "saveDebounceTimer (callWebhook L env k c h b q) =
     (if truthy_string (webhookUrl c) \<and> delivered env then False else saveDebounceTimer q)"
  "disk (callWebhook L env k c h b q) =
     (if truthy_string (webhookUrl c) \<and> delivered env
      then savePersistedState L (current_state L (fetch_now env) (callWebhook L env k c h b q))
      else disk q)"
  by (auto simp: callWebhook_def basic_defs Let_def truthy_string_def delivered_def current_state_def
      split: option.splits FetchResult.splits)

lemma callWebhook_trace:
  "trace (callWebhook L env k c h b q) =
     trace q @ (if truthy_string (webhookUrl c)
                then [Fetch (the (webhookUrl c)) (webhook_payload L (sweep_now env) c h b),
                      Emit (webhook_event env) (charge_id c)]
                else [])"
  by (auto simp: callWebhook_def basic_defs Let_def truthy_string_def webhook_event_def
      split: option.splits FetchResult.splits)

lemma sweepCharge_success_effects:
  assumes "map_of (charges p) chargeId = Some charge" "status charge \<noteq> Swept" "sweep_succeeds env h"
  shows "new_effects p (snd (sweepCharge L env chargeId p)) =
           [WalletReceivePending (accountIndex charge),
            WalletSend (getMainAddress L p) (getBalance_result env) (accountIndex charge),
            MonitorRemoveAccount (address charge), Emit ''charge:swept'' (charge_id charge)]
           @ (if notifies charge
              then [Fetch (the (webhookUrl charge))
                      (webhook_payload L (sweep_now env) (swept_charge env charge h) h
                         (getBalance_result env)),
                    Emit (webhook_event env) (charge_id charge)]
              else [])"
  unfolding sweepCharge_success_unfold[OF assms] new_effects_def
  by (simp add: callWebhook_trace swept_state_fields swept_charge_fields notifies_def)

lemma sweepCharge_no_post:
  assumes "map_of (charges q) k = Some c" "\<not> notifies c"
  shows "posts (new_effects q (snd (sweepCharge L env k q))) = []"
proof (cases "status c \<noteq> Swept \<and> (\<exists>h. sweep_succeeds env h)")
  case True
  then obtain h where "sweep_succeeds env h" by blast
  with True assms show ?thesis
    by (simp add: sweepCharge_success_effects)
next
  case False
  with assms show ?thesis
    by (auto simp: sweepCharge_def new_effects_def basic_defs Let_def sweep_succeeds_def
        split: option.splits sum.splits)
qed

text \<open>
  Claim C4. For a charge of the store that is not swept, when \<^verbatim>\<open>receivePending\<close>
  resolves, the balance read afterwards is not zero and \<^verbatim>\<open>send\<close> resolves with the
  hash \<open>h\<close>: \<^verbatim>\<open>sweepCharge\<close> returns the hash and the balance, has sent the whole
  balance from the charge's account to the main address, leaves the charge swept with
  the sweep time and the hash recorded, has removed the address from the address
  index and from the monitor, has written the file from the final state with no
  save left pending, and has posted a notification if and only if a target is
  configured and the notification-sent flag is not set.
\<close>

theorem sweepCharge_success:
  assumes "map_of (charges p) chargeId = Some charge" "status charge \<noteq> Swept"
    and "sweep_succeeds env h"
    and "sweepCharge L env chargeId p = (r, p')"
  shows "r = Inr (Some (h, getBalance_result env))
    \<and> WalletSend (getMainAddress L p) (getBalance_result env) (accountIndex charge)
         \<in> set (new_effects p p')
    \<and> (\<exists>charge'. map_of (charges p') chargeId = Some charge' \<and> status charge' = Swept
          \<and> sweptAt charge' = Some (sweep_now env) \<and> sweepTxHash charge' = Some h)
    \<and> addressToChargeId p' (address charge) = None
    \<and> MonitorRemoveAccount (address charge) \<in> set (new_effects p p')
    \<and> \<not> saveDebounceTimer p'
    \<and> disk p' = savePersistedState L
                  (current_state L (if notifies charge \<and> delivered env
                                    then fetch_now env else sweep_now env) p')
    \<and> (posts (new_effects p p') \<noteq> [] \<longleftrightarrow> notifies charge)"
proof -
  note u = sweepCharge_success_unfold[OF assms(1-3), of L]
  have r: "r = Inr (Some (h, getBalance_result env))"
    and p': "p' = (if notifies charge
      then callWebhook L env chargeId (swept_charge env charge h) h (getBalance_result env)
             (swept_state L env chargeId charge h p)
      else swept_state L env chargeId charge h p)"
    using assms(4) unfolding u by simp_all
  have p'': "p' = snd (sweepCharge L env chargeId p)"
    using assms(4) by simp
  note tr = sweepCharge_success_effects[OF assms(1-3), of L, folded p'']
  have ch: "\<exists>charge'. map_of (charges p') chargeId = Some charge' \<and> status charge' = Swept
          \<and> sweptAt charge' = Some (sweep_now env) \<and> sweepTxHash charge' = Some h"
    unfolding p'
    by (simp add: callWebhook_fields swept_state_fields AList.update_conv' swept_charge_def)
  have ad: "addressToChargeId p' (address charge) = None"
    unfolding p' by (simp add: callWebhook_fields swept_state_fields)
  have ti: "\<not> saveDebounceTimer p'"
    unfolding p' by (simp add: callWebhook_fields swept_state_fields)
  have di: "disk p' = savePersistedState L
              (current_state L (if notifies charge \<and> delivered env
                                then fetch_now env else sweep_now env) p')"
    unfolding p'
    by (simp add: callWebhook_fields(5) swept_state_fields(5) swept_charge_fields notifies_def)
       (simp add: current_state_def callWebhook_fields swept_charge_fields)
  show ?thesis using r ch ad ti di by (simp add: tr)
qed

theorem sweepCharge_success_witness:
  "map_of (charges P1) ''chg_a'' = Some charge0 \<and> status charge0 \<noteq> Swept
   \<and> sweep_succeeds env0 ''h''
   \<and> fst (sweepCharge L0 env0 ''chg_a'' P1) = Inr (Some (''h'', 10))
   \<and> addressToChargeId (snd (sweepCharge L0 env0 ''chg_a'' P1)) ''nano_1'' = None
   \<and> posts (new_effects P1 (snd (sweepCharge L0 env0 ''chg_a'' P1))) \<noteq> []"
proof -
  have h1: "map_of (charges P1) ''chg_a'' = Some charge0"
    by (simp add: P1_fields)
  have h2: "status charge0 \<noteq> Swept"
    by (simp add: charge0_fields)
  have h3: "sweep_succeeds env0 ''h''"
    by (simp add: sweep_succeeds_def env0_fields)
  have h4: "sweepCharge L0 env0 ''chg_a'' P1
              = (fst (sweepCharge L0 env0 ''chg_a'' P1), snd (sweepCharge L0 env0 ''chg_a'' P1))"
    by simp
  show ?thesis
    using h1 h2 h3 sweepCharge_success [OF h1 h2 h3 h4]
    by (simp add: env0_fields charge0_fields notifies_def truthy_string_def truthy_bool_def)
qed

section \<open>The webhook\<close>

text \<open>
  Claim C6. When a sweep goes through for a charge with a configured target whose
  notification-sent flag is not set, exactly one POST is issued, whatever its
  outcome, and \<^verbatim>\<open>sweepCharge\<close> returns its result, never an error. If the POST is
  not answered with a success status (or \<^verbatim>\<open>fetch\<close> raises), the charge is left as
  the sweep left it, swept and with the flag unchanged; \<^verbatim>\<open>callWebhook\<close> itself then
  changes neither the store nor the file. If it is answered with a success status,
  the flag is set and the file is written from the final state at once. In both
  cases a later \<^verbatim>\<open>sweepCharge\<close> for the charge returns \<^verbatim>\<open>null\<close> and changes nothing;
  and in any state, a sweep of a charge whose flag is set posts nothing.
\<close>

theorem webhook_single_attempt:
  assumes "map_of (charges p) chargeId = Some charge" "status charge \<noteq> Swept"
    and "sweep_succeeds env h" "notifies charge"
    and "sweepCharge L env chargeId p = (r, p')"
  shows "posts (new_effects p p')
           = [(the (webhookUrl charge),
               webhook_payload L (sweep_now env) (swept_charge env charge h) h
                 (getBalance_result env))]
    \<and> r = Inr (Some (h, getBalance_result env))
    \<and> (\<not> delivered env \<longrightarrow>
          map_of (charges p') chargeId = Some (swept_charge env charge h)
          \<and> webhookSent (swept_charge env charge h) = webhookSent charge
          \<and> (\<forall>k c b q. charges (callWebhook L env k c h b q) = charges q
                        \<and> disk (callWebhook L env k c h b q) = disk q))
    \<and> (delivered env \<longrightarrow>
          map_of (charges p') chargeId = Some ((swept_charge env charge h)\<lparr>webhookSent := Some True\<rparr>)
          \<and> disk p' = savePersistedState L (current_state L (fetch_now env) p')
          \<and> \<not> saveDebounceTimer p')
    \<and> (\<forall>env'. sweepCharge L env' chargeId p' = (Inr None, p'))
    \<and> (\<forall>env' q c. map_of (charges q) chargeId = Some c \<and> truthy_bool (webhookSent c) \<longrightarrow>
          posts (new_effects q (snd (sweepCharge L env' chargeId q))) = [])"
proof -
  note u = sweepCharge_success_unfold[OF assms(1-3), of L]
  have r: "r = Inr (Some (h, getBalance_result env))"
    and p': "p' = callWebhook L env chargeId (swept_charge env charge h) h (getBalance_result env)
             (swept_state L env chargeId charge h p)"
    using assms(4,5) unfolding u by simp_all
  have p'': "p' = snd (sweepCharge L env chargeId p)"
    using assms(5) by simp
  have url: "truthy_string (webhookUrl charge)"
    using assms(4) by (simp add: notifies_def)
  have 1: "posts (new_effects p p')
           = [(the (webhookUrl charge),
               webhook_payload L (sweep_now env) (swept_charge env charge h) h
                 (getBalance_result env))]"
    unfolding p'' using assms(4) by (simp add: sweepCharge_success_effects[OF assms(1-3)])
  have 3: "\<not> delivered env \<longrightarrow>
          map_of (charges p') chargeId = Some (swept_charge env charge h)
          \<and> webhookSent (swept_charge env charge h) = webhookSent charge
          \<and> (\<forall>k c b q. charges (callWebhook L env k c h b q) = charges q
                        \<and> disk (callWebhook L env k c h b q) = disk q)"
    unfolding p'
    by (simp add: callWebhook_fields swept_state_fields swept_charge_fields AList.update_conv')
  have 4: "delivered env \<longrightarrow>
          map_of (charges p') chargeId = Some ((swept_charge env charge h)\<lparr>webhookSent := Some True\<rparr>)
          \<and> disk p' = savePersistedState L (current_state L (fetch_now env) p')
          \<and> \<not> saveDebounceTimer p'"
    unfolding p' using url
    by (simp add: callWebhook_fields swept_state_fields swept_charge_fields AList.update_conv')
  have st: "\<exists>c'. map_of (charges p') chargeId = Some c' \<and> status c' = Swept"
    unfolding p'
    by (simp add: callWebhook_fields swept_state_fields swept_charge_fields AList.update_conv')
  have 5: "\<forall>env'. sweepCharge L env' chargeId p' = (Inr None, p')"
    using st by (auto simp: sweepCharge_def)
  have 6: "\<forall>env' q c. map_of (charges q) chargeId = Some c \<and> truthy_bool (webhookSent c) \<longrightarrow>
          posts (new_effects q (snd (sweepCharge L env' chargeId q))) = []"
    by (auto intro!: sweepCharge_no_post simp: notifies_def)
  show ?thesis using 1 r 3 4 5 6 by blast
qed

theorem webhook_single_attempt_witness:
  "map_of (charges P1) ''chg_a'' = Some charge0 \<and> status charge0 \<noteq> Swept
   \<and> sweep_succeeds env0 ''h'' \<and> notifies charge0 \<and> delivered env0
   \<and> length (posts (new_effects P1 (snd (sweepCharge L0 env0 ''chg_a'' P1)))) = 1
   \<and> map_of (charges (snd (sweepCharge L0 env0 ''chg_a'' P1))) ''chg_a''
       = Some ((swept_charge env0 charge0 ''h'')\<lparr>webhookSent := Some True\<rparr>)
   \<and> sweepCharge L0 env0 ''chg_a'' (snd (sweepCharge L0 env0 ''chg_a'' P1))
       = (Inr None, snd (sweepCharge L0 env0 ''chg_a'' P1))"
proof -
  have h1: "map_of (charges P1) ''chg_a'' = Some charge0"
    by (simp add: P1_fields)
  have h2: "status charge0 \<noteq> Swept"
    by (simp add: charge0_fields)
  have h3: "sweep_succeeds env0 ''h''"
    by (simp add: sweep_succeeds_def env0_fields)
  have h4: "notifies charge0"
    by (simp add: notifies_def truthy_string_def truthy_bool_def charge0_fields)
  have h5: "sweepCharge L0 env0 ''chg_a'' P1
              = (fst (sweepCharge L0 env0 ''chg_a'' P1), snd (sweepCharge L0 env0 ''chg_a'' P1))"
    by simp
  have h6: "delivered env0"
    by (simp add: delivered_def env0_fields response_ok_def)
  show ?thesis
    using h1 h2 h3 h4 h6 webhook_single_attempt [OF h1 h2 h3 h4 h5]
    by simp
qed

section \<open>Evolution of the charge store\<close>

lemma charges_unchanged:
  "charges (emit name detail p) = charges p"
  "charges (call e p) = charges p"
  "charges (persistState p) = charges p"
  "charges (persistStateNow L now p) = charges p"
  "charges (wallet_rpc L i p) = charges p"
  "charges (saveTimerFires L now p) = charges p"
  by (simp_all add: basic_defs saveTimerFires_def)

lemma charge_step_refl: "charge_step R c c"
  by (simp add: charge_step_def)

lemma evolves_same: "evolves R K al al"
  by (simp add: evolves_def charge_step_refl)

lemma evolves_update:
  assumes "map_of al k = Some c" "charge_step R c c'" "k \<in> K"
  shows "evolves R K al (AList.update k c' al)"
  using assms
  by (auto simp: evolves_def AList.update_conv' AList.distinct_update charge_step_refl)

lemma evolves_delete:
  assumes "k \<in> K"
  shows "evolves R K al (AList.delete k al)"
  using assms
  by (auto simp: evolves_def AList.delete_conv' AList.distinct_delete charge_step_refl
      split: if_splits)

lemma evolves_comp:
  assumes R: "\<And>a b c. a = b \<or> R1 a b \<Longrightarrow> b = c \<or> R2 b c \<Longrightarrow> a = c \<or> R3 a c"
    and 1: "evolves R1 K al al'" and 2: "evolves R2 K al' al''"
  shows "evolves R3 K al al''"
  unfolding evolves_def
proof (intro conjI allI impI)
  assume "distinct (map fst al)"
  with 1 2 show "distinct (map fst al'')"
    by (simp add: evolves_def)
next
  fix k assume "k \<notin> K"
  with 1 2 show "map_of al'' k = map_of al k"
    by (simp add: evolves_def)
next
  fix k c'' assume "map_of al'' k = Some c''"
  with 2 obtain c' where c': "map_of al' k = Some c'" "charge_step R2 c' c''"
    by (auto simp: evolves_def)
  with 1 obtain c where c: "map_of al k = Some c" "charge_step R1 c c'"
    by (auto simp: evolves_def)
  have "status c'' = status c \<or> R3 (status c) (status c'')"
    using R[of "status c" "status c'" "status c''"] c(2) c'(2)
    by (auto simp: charge_step_def)
  with c c' show "\<exists>c. map_of al k = Some c \<and> charge_step R3 c c''"
    by (auto simp: charge_step_def)
qed

lemma evolves_mono:
  assumes "evolves R K al al'" "K \<subseteq> K'" "\<And>a b. R a b \<Longrightarrow> R' a b"
  shows "evolves R' K' al al'"
  using assms unfolding evolves_def charge_step_def by blast

lemma forward_refl: "forward a a"
  by (cases a) simp_all

lemma forward_trans: "forward a b \<Longrightarrow> forward b c \<Longrightarrow> forward a c"
  by (cases a; cases b; cases c; simp)

lemma forward_comp: "a = b \<or> forward a b \<Longrightarrow> b = c \<or> forward b c \<Longrightarrow> a = c \<or> forward a c"
  using forward_trans by blast

lemma edges_forward:
  "payment_edge a b \<Longrightarrow> forward a b"
  "expiry_edge a b \<Longrightarrow> forward a b"
  "sweep_edge a b \<Longrightarrow> forward a b"
  "no_edge a b \<Longrightarrow> forward a b"
  by (cases a; cases b; simp add: no_edge_def)+

lemma evolves_trans:
  assumes "evolves forward K al al'" "evolves forward K al' al''"
  shows "evolves forward K al al''"
  using forward_comp assms by (rule evolves_comp)

lemma evolves_any_trans:
  assumes "evolves any_edge K al al'" "evolves any_edge K al' al''"
  shows "evolves any_edge K al al''"
  by (rule evolves_comp[OF _ assms]) (simp add: any_edge_def)

subsection \<open>callWebhook and sweepCharge\<close>

lemma callWebhook_evolves:
  assumes "map_of (charges q) k = Some c"
  shows "evolves no_edge {k} (charges q) (charges (callWebhook L env k c h b q))"
  using assms
  by (auto simp: callWebhook_fields intro!: evolves_same evolves_update
      simp: charge_step_def ledger_ok_def)

lemma sweepCharge_failure_charges:
  assumes "\<not> (\<exists>c h. map_of (charges p) k = Some c \<and> status c \<noteq> Swept \<and> sweep_succeeds env h)"
  shows "charges (snd (sweepCharge L env k p)) = charges p"
  using assms
  by (auto simp: sweepCharge_def basic_defs Let_def sweep_succeeds_def
      split: option.splits sum.splits)

lemma sweepCharge_evolves:
  "evolves sweep_edge {k} (charges p) (charges (snd (sweepCharge L env k p)))"
proof (cases "\<exists>c h. map_of (charges p) k = Some c \<and> status c \<noteq> Swept \<and> sweep_succeeds env h")
  case True
  then obtain c h where c: "map_of (charges p) k = Some c" "status c \<noteq> Swept" "sweep_succeeds env h"
    by blast
  have st: "charge_step sweep_edge c (swept_charge env c h)"
    using c(2) by (cases "status c") (simp_all add: charge_step_def swept_charge_def ledger_ok_def)
  have 1: "evolves sweep_edge {k} (charges p) (charges (swept_state L env k c h p))"
    by (simp add: swept_state_fields evolves_update[OF c(1) st])
  have m: "map_of (charges (swept_state L env k c h p)) k = Some (swept_charge env c h)"
    by (simp add: swept_state_fields AList.update_conv')
  have 2: "evolves no_edge {k} (charges (swept_state L env k c h p))
             (charges (callWebhook L env k (swept_charge env c h) h (getBalance_result env)
                (swept_state L env k c h p)))"
    by (rule callWebhook_evolves[OF m])
  have 3: "evolves sweep_edge {k} (charges p)
             (charges (callWebhook L env k (swept_charge env c h) h (getBalance_result env)
                (swept_state L env k c h p)))"
    by (rule evolves_comp[OF _ 1 2]) (auto simp: no_edge_def)
  show ?thesis
    unfolding sweepCharge_success_unfold[OF c] using 1 3 by simp
next
  case False
  then show ?thesis
    by (simp add: sweepCharge_failure_charges evolves_same)
qed

lemma sweep_caught_evolves:
  "evolves sweep_edge {k} (charges p) (charges (sweep_caught L env k p))"
proof (cases "sweepCharge L env k p")
  case (Pair r p')
  with sweepCharge_evolves[of k p L env] show ?thesis
    by (cases r) (simp_all add: sweep_caught_def charges_unchanged)
qed

subsection \<open>handlePayment\<close>

lemma entryByAddress_lookup:
  "entryByAddress p a = Some (key, charge) \<Longrightarrow> map_of (charges p) key = Some charge"
  by (auto simp: entryByAddress_def getChargeByAddress_def split: option.splits if_splits)

lemma applyPayment_ignored:
  assumes "\<not> (\<exists>key charge. entryByAddress p (pay_to payment) = Some (key, charge) \<and> active charge)"
  shows "applyPayment L now payment p = (Inr None, p)"
  using assms
  by (cases "status (snd (the (entryByAddress p (pay_to payment))))")
     (auto simp: applyPayment_def active_def split: option.splits)

lemma applyPayment_charges:
  assumes "entryByAddress p (pay_to payment) = Some (key, charge)" "active charge"
  shows "charges (snd (applyPayment L now payment p)) =
           AList.update key
             (charge\<lparr>transactions := transactions charge @
                       [\<lparr>tx_hash = pay_hash payment, tx_from = pay_from payment,
                         tx_amountRaw = pay_amount payment,
                         tx_amountNano = pay_amountNano payment,
                         tx_timestamp = pay_timestamp payment\<rparr>],
                     receivedRaw := receivedRaw charge + pay_amount payment,
                     receivedNano := rawToNano L (receivedRaw charge + pay_amount payment),
                     status := (case amountRaw charge of
                                  None \<Rightarrow> status charge
                                | Some required \<Rightarrow>
                                    if receivedRaw charge + pay_amount payment \<ge> required
                                    then Completed else Partial),
                     completedAt := (case amountRaw charge of
                                  None \<Rightarrow> completedAt charge
                                | Some required \<Rightarrow>
                                    if receivedRaw charge + pay_amount payment \<ge> required
                                    then Some now else completedAt charge)\<rparr>)
             (charges p)"
  using assms
  by (cases "amountRaw charge")
     (auto simp: applyPayment_def active_def Let_def charges_unchanged)

lemma applyPayment_evolves:
  "evolves payment_edge UNIV (charges p) (charges (snd (applyPayment L now payment p)))"
proof (cases "\<exists>key charge. entryByAddress p (pay_to payment) = Some (key, charge) \<and> active charge")
  case True
  then obtain key charge where e: "entryByAddress p (pay_to payment) = Some (key, charge)" "active charge"
    by blast
  show ?thesis
    unfolding applyPayment_charges[OF e]
    using e(2)
    by (intro evolves_update[OF entryByAddress_lookup[OF e(1)]])
       (auto simp: charge_step_def active_def ledger_ok_def split: option.splits)
next
  case False
  then show ?thesis
    by (simp add: applyPayment_ignored evolves_same)
qed

lemma handlePayment_evolves:
  "evolves forward UNIV (charges p) (charges (snd (handlePayment L now env payment p)))"
proof -
  have 1: "evolves forward UNIV (charges p) (charges (snd (applyPayment L now payment p)))"
    by (rule evolves_mono[OF applyPayment_evolves]) (simp_all add: edges_forward)
  have 2: "evolves forward UNIV (charges q) (charges (snd (sweepCharge L env k q)))" for q k
    by (rule evolves_mono[OF sweepCharge_evolves]) (simp_all add: edges_forward)
  obtain outcome p1 where a: "applyPayment L now payment p = (outcome, p1)"
    by (cases "applyPayment L now payment p")
  show ?thesis
  proof (cases outcome)
    case (Inl e)
    with a 1 show ?thesis by (simp add: handlePayment_def)
  next
    case (Inr target)
    show ?thesis
    proof (cases target)
      case None
      with a 1 Inr show ?thesis by (simp add: handlePayment_def)
    next
      case (Some ident)
      obtain r p2 where s: "sweepCharge L env ident p1 = (r, p2)"
        by (cases "sweepCharge L env ident p1")
      have "evolves forward UNIV (charges p) (charges p2)"
        using evolves_trans[OF 1 2[of "snd (applyPayment L now payment p)" ident]] a s by simp
      with a s Some Inr show ?thesis
        by (cases r) (simp_all add: handlePayment_def)
    qed
  qed
qed

lemma evolves_foldl:
  assumes step: "\<And>q x. evolves R K (charges q) (charges (f q x))"
    and R: "\<And>a b c. a = b \<or> R a b \<Longrightarrow> b = c \<or> R b c \<Longrightarrow> a = c \<or> R a c"
  shows "evolves R K (charges p) (charges (foldl f p xs))"
proof (induction xs arbitrary: p)
  case Nil
  show ?case by (simp add: evolves_same)
next
  case (Cons x xs)
  show ?case
    using evolves_comp[OF R step[of p x] Cons.IH[of "f p x"]] by simp
qed

lemma evolves_strengthen:
  assumes e: "evolves R K al al'"
    and s: "\<And>k c c'. map_of al k = Some c \<Longrightarrow> map_of al' k = Some c' \<Longrightarrow> k \<in> K \<Longrightarrow>
                R (status c) (status c') \<Longrightarrow> R' (status c) (status c')"
  shows "evolves R' K al al'"
  unfolding evolves_def
proof (intro conjI allI impI)
  assume "distinct (map fst al)"
  with e show "distinct (map fst al')" by (simp add: evolves_def)
next
  fix k assume "k \<notin> K"
  with e show "map_of al' k = map_of al k" by (simp add: evolves_def)
next
  fix k c' assume c': "map_of al' k = Some c'"
  with e obtain c where c: "map_of al k = Some c" "charge_step R c c'"
    by (auto simp: evolves_def)
  show "\<exists>c. map_of al k = Some c \<and> charge_step R' c c'"
  proof (cases "k \<in> K")
    case True
    from s[OF c(1) c' True] c(2) have "charge_step R' c c'"
      by (auto simp: charge_step_def)
    with c(1) show ?thesis by blast
  next
    case False
    with e c' have "map_of al k = Some c'" by (simp add: evolves_def)
    then show ?thesis by (auto simp: charge_step_refl)
  qed
qed

subsection \<open>checkMissedPayments\<close>

lemma receive_one_evolves:
  "evolves no_edge {key} (charges p) (charges (receive_one L key p item))"
proof (cases item)
  case (fields pb outcome now)
  show ?thesis
  proof (cases "map_of (charges p) key")
    case None
    with fields show ?thesis by (simp add: receive_one_def evolves_same)
  next
    case (Some charge)
    show ?thesis
    proof (cases outcome)
      case None
      have "evolves no_edge {key} (charges p)
              (AList.update key
                 (charge\<lparr>transactions := transactions charge @
                            [\<lparr>tx_hash = pb_hash pb, tx_from = pb_source pb,
                              tx_amountRaw = pb_amount pb,
                              tx_amountNano = rawToNano L (pb_amount pb),
                              tx_timestamp = ValidDate now\<rparr>],
                         receivedRaw := receivedRaw charge + pb_amount pb,
                         receivedNano := rawToNano L (receivedRaw charge + pb_amount pb)\<rparr>)
                 (charges p))"
        by (rule evolves_update[OF Some]) (simp_all add: charge_step_def ledger_ok_def)
      with fields Some None show ?thesis
        by (simp add: receive_one_def Let_def charges_unchanged)
    next
      case (Some e)
      with fields \<open>map_of (charges p) key = Some charge\<close> show ?thesis
        by (simp add: receive_one_def Let_def charges_unchanged evolves_same)
    qed
  qed
qed

lemma no_edge_comp: "a = b \<or> no_edge a b \<Longrightarrow> b = c \<or> no_edge b c \<Longrightarrow> a = c \<or> no_edge a c"
  by (simp add: no_edge_def)

lemma receive_loop_evolves:
  "evolves no_edge {key} (charges p) (charges (foldl (receive_one L key) p items))"
  by (rule evolves_foldl[OF receive_one_evolves no_edge_comp])

lemma recovery_edge_after:
  "a = b \<or> no_edge a b \<Longrightarrow> b = c \<or> recovery_edge b c \<Longrightarrow> a = c \<or> recovery_edge a c"
  by (auto simp: no_edge_def)

lemma recoverCharge_apply_evolves:
  "evolves recovery_edge {key} (charges p) (charges (snd (recoverCharge_apply L env key p)))"
proof (cases "map_of (charges p) key")
  case None
  then show ?thesis by (simp add: recoverCharge_apply_def evolves_same)
next
  case (Some charge0)
  define p2 where "p2 = foldl (receive_one L key)
     (emit ''recovery:found'' (charge_id charge0) (wallet_rpc L (accountIndex charge0) p))
     (pending_result env)"
  have 1: "evolves no_edge {key} (charges p) (charges p2)"
    using receive_loop_evolves[of key
        "emit ''recovery:found'' (charge_id charge0) (wallet_rpc L (accountIndex charge0) p)" L
        "pending_result env"]
    by (simp add: p2_def charges_unchanged)
  show ?thesis
  proof (cases "pending_result env = []")
    case True
    with Some show ?thesis
      by (simp add: recoverCharge_apply_def Let_def charges_unchanged evolves_same)
  next
    case False
    show ?thesis
    proof (cases "map_of (charges p2) key")
      case None
      have "evolves recovery_edge {key} (charges p) (charges p2)"
        by (rule evolves_mono[OF 1]) (simp_all add: no_edge_def)
      with Some False None show ?thesis
        by (simp add: recoverCharge_apply_def Let_def p2_def[symmetric])
    next
      case (Some charge)
      have u: "evolves recovery_edge {key} (charges p2) (AList.update key (charge\<lparr>status := s, completedAt := t\<rparr>) (charges p2))"
        if "s = Completed \<or> s = Partial" for s t
        using that
        by (intro evolves_update[OF Some])
           (cases "status charge"; auto simp: charge_step_def ledger_ok_def recovery_edge_def)+
      have c: "evolves recovery_edge {key} (charges p) (AList.update key (charge\<lparr>status := s, completedAt := t\<rparr>) (charges p2))"
        if "s = Completed \<or> s = Partial" for s t
        by (rule evolves_comp[OF recovery_edge_after 1 u[OF that]])
      have n: "evolves recovery_edge {key} (charges p) (charges p2)"
        by (rule evolves_mono[OF 1]) (simp_all add: no_edge_def)
      from c[of Completed "Some (recovery_now env)"] c[of Partial "completedAt charge"] n
      show ?thesis
        using \<open>map_of (charges p) key = Some charge0\<close> False Some
        by (cases "amountRaw charge")
           (simp_all add: recoverCharge_apply_def Let_def p2_def[symmetric] charges_unchanged)
    qed
  qed
qed

lemma recoverCharge_apply_target:
  assumes "fst (recoverCharge_apply L env key p) = Some ident"
  shows "\<exists>c. map_of (charges p) key = Some c \<and> ident = charge_id c"
proof (cases "map_of (charges p) key")
  case None
  with assms show ?thesis by (simp add: recoverCharge_apply_def)
next
  case (Some charge0)
  define p2 where "p2 = foldl (receive_one L key)
     (emit ''recovery:found'' (charge_id charge0) (wallet_rpc L (accountIndex charge0) p))
     (pending_result env)"
  have 1: "evolves no_edge {key} (charges p) (charges p2)"
    using receive_loop_evolves[of key
        "emit ''recovery:found'' (charge_id charge0) (wallet_rpc L (accountIndex charge0) p)" L
        "pending_result env"]
    by (simp add: p2_def charges_unchanged)
  from assms Some obtain charge where c: "map_of (charges p2) key = Some charge" "ident = charge_id charge"
    by (auto simp: recoverCharge_apply_def Let_def p2_def[symmetric]
        split: if_splits option.splits)
  from 1 c(1) obtain c0 where "map_of (charges p) key = Some c0" "charge_step no_edge c0 charge"
    by (auto simp: evolves_def)
  with c(2) show ?thesis by (auto simp: charge_step_def)
qed

lemma any_edge_comp: "a = b \<or> any_edge a b \<Longrightarrow> b = c \<or> any_edge b c \<Longrightarrow> a = c \<or> any_edge a c"
  by (simp add: any_edge_def)

lemma recoverCharge_evolves_any:
  "evolves any_edge UNIV (charges p) (charges (recoverCharge L env key p))"
proof -
  have 1: "evolves any_edge UNIV (charges p) (charges (snd (recoverCharge_apply L env key p)))"
    by (rule evolves_mono[OF recoverCharge_apply_evolves]) (simp_all add: any_edge_def)
  have 2: "evolves any_edge UNIV (charges q) (charges (sweep_caught L e k q))" for q k e
    by (rule evolves_mono[OF sweep_caught_evolves]) (simp_all add: any_edge_def)
  obtain target p1 where a: "recoverCharge_apply L env key p = (target, p1)"
    by (cases "recoverCharge_apply L env key p")
  show ?thesis
    using a 1 evolves_any_trans[OF 1 2[of "snd (recoverCharge_apply L env key p)"]]
    by (cases target) (simp_all add: recoverCharge_def)
qed

lemma recoverCharge_evolves:
  assumes c: "map_of (charges p) key = Some c" "active c" "charge_id c = key"
  shows "evolves forward {key} (charges p) (charges (recoverCharge L env key p))"
proof -
  have 0: "evolves payment_edge {key} (charges p) (charges (snd (recoverCharge_apply L env key p)))"
    by (rule evolves_strengthen[OF recoverCharge_apply_evolves])
       (use c in \<open>auto simp: recovery_edge_def active_def\<close>)
  have 1: "evolves forward {key} (charges p) (charges (snd (recoverCharge_apply L env key p)))"
    by (rule evolves_mono[OF 0]) (simp_all add: edges_forward)
  have 2: "evolves forward {key} (charges q) (charges (sweep_caught L e key q))" for q e
    by (rule evolves_mono[OF sweep_caught_evolves]) (simp_all add: edges_forward)
  obtain target p1 where a: "recoverCharge_apply L env key p = (target, p1)"
    by (cases "recoverCharge_apply L env key p")
  show ?thesis
  proof (cases target)
    case None
    with a 1 show ?thesis by (simp add: recoverCharge_def)
  next
    case (Some ident)
    with a recoverCharge_apply_target[of L env key p ident] c have "ident = key"
      by simp
    with a Some evolves_trans[OF 1 2[of "snd (recoverCharge_apply L env key p)"]]
    show ?thesis by (simp add: recoverCharge_def)
  qed
qed

lemma recover_loop_evolves:
  assumes "distinct ks"
    and "\<forall>k\<in>set ks. \<exists>c. map_of (charges q) k = Some c \<and> active c \<and> charge_id c = k"
  shows "evolves forward (set ks) (charges q)
           (charges (foldl (\<lambda>q key. recoverCharge L (envs key) key q) q ks))"
  using assms
proof (induction ks arbitrary: q)
  case Nil
  show ?case by (simp add: evolves_same)
next
  case (Cons k ks)
  from Cons.prems obtain c where c: "map_of (charges q) k = Some c" "active c" "charge_id c = k"
    by auto
  let ?q1 = "recoverCharge L (envs k) k q"
  have 1: "evolves forward {k} (charges q) (charges ?q1)"
    by (rule recoverCharge_evolves[OF c])
  have same: "map_of (charges ?q1) k' = map_of (charges q) k'" if "k' \<in> set ks" for k'
    using 1 that Cons.prems(1) by (auto simp: evolves_def)
  have pre: "\<forall>k\<in>set ks. \<exists>c. map_of (charges ?q1) k = Some c \<and> active c \<and> charge_id c = k"
    using Cons.prems(2) same by simp
  have 2: "evolves forward (set ks) (charges ?q1)
             (charges (foldl (\<lambda>q key. recoverCharge L (envs key) key q) ?q1 ks))"
    using Cons.prems(1) by (intro Cons.IH[OF _ pre]) simp
  have "evolves forward (set (k # ks)) (charges q)
          (charges (foldl (\<lambda>q key. recoverCharge L (envs key) key q) ?q1 ks))"
    by (rule evolves_trans[OF evolves_mono[OF 1] evolves_mono[OF 2]]) auto
  then show ?case by simp
qed

lemma store_ok_lookup:
  assumes "store_ok p" "(k, c) \<in> set (charges p)"
  shows "map_of (charges p) k = Some c \<and> charge_id c = k"
  using assms by (auto simp: store_ok_def list_all_iff)

lemma checkMissedPayments_evolves:
  assumes "store_ok p"
  shows "evolves forward UNIV (charges p) (charges (checkMissedPayments L envs p))"
proof -
  let ?ks = "map fst (filter (\<lambda>entry. active (snd entry)) (charges p))"
  have d: "distinct ?ks"
    using assms by (simp add: store_ok_def distinct_map_filter)
  have pre: "\<forall>k\<in>set ?ks. \<exists>c. map_of (charges p) k = Some c \<and> active c \<and> charge_id c = k"
    using store_ok_lookup[OF assms] by fastforce
  show ?thesis
    unfolding checkMissedPayments_def
    by (rule evolves_mono[OF recover_loop_evolves[OF d pre]]) simp_all
qed

lemma checkMissedPayments_evolves_any:
  "evolves any_edge UNIV (charges p) (charges (checkMissedPayments L envs p))"
  unfolding checkMissedPayments_def
  by (rule evolves_foldl[OF recoverCharge_evolves_any any_edge_comp])

subsection \<open>checkExpiredCharges\<close>

lemma expire_one_evolves:
  "evolves expiry_edge UNIV (charges (fst acc)) (charges (fst (expire_one now acc key)))"
proof (cases acc)
  case (fields p stateChanged started)
  show ?thesis
  proof (cases "map_of (charges p) key")
    case None
    with fields show ?thesis by (simp add: expire_one_def evolves_same)
  next
    case (Some charge)
    have "evolves expiry_edge UNIV (charges p) (AList.update key (charge\<lparr>status := Expired\<rparr>) (charges p))"
      if "status charge = Pending \<or> status charge = Partial"
      using that
      by (intro evolves_update[OF Some]) (auto simp: charge_step_def ledger_ok_def)
    with fields Some show ?thesis
      by (auto simp: expire_one_def Let_def charges_unchanged evolves_same)
  qed
qed

lemma expiry_edge_comp:
  "a = b \<or> expiry_edge a b \<Longrightarrow> b = c \<or> expiry_edge b c \<Longrightarrow> a = c \<or> expiry_edge a c"
  by (cases a; cases b; cases c; simp)

lemma expire_loop_evolves:
  "evolves expiry_edge UNIV (charges (fst acc)) (charges (fst (foldl (expire_one now) acc ks)))"
proof (induction ks arbitrary: acc)
  case Nil
  show ?case by (simp add: evolves_same)
next
  case (Cons k ks)
  show ?case
    using evolves_comp[OF expiry_edge_comp expire_one_evolves[of acc now k]
        Cons.IH[of "expire_one now acc k"]]
    by simp
qed

lemma checkExpiredCharges_evolves:
  "evolves forward UNIV (charges p) (charges (checkExpiredCharges L now envs p))"
proof -
  obtain p1 stateChanged started
    where l: "foldl (expire_one now) (p, False, []) (map fst (charges p)) = (p1, stateChanged, started)"
    by (cases "foldl (expire_one now) (p, False, []) (map fst (charges p))")
  have "evolves expiry_edge UNIV (charges p) (charges p1)"
    using expire_loop_evolves[of "(p, False, [])" now "map fst (charges p)"] l by simp
  then have 1: "evolves forward UNIV (charges p)
                  (charges (if stateChanged then persistState p1 else p1))"
    by (auto intro: evolves_mono simp: charges_unchanged edges_forward)
  have s: "evolves forward UNIV (charges q) (charges (sweep_caught L (envs ident) ident q))" for q ident
    by (rule evolves_mono[OF sweep_caught_evolves]) (simp_all add: edges_forward)
  have 2: "evolves forward UNIV (charges q)
             (charges (foldl (\<lambda>q ident. sweep_caught L (envs ident) ident q) q started))" for q
    by (rule evolves_foldl[OF s forward_comp])
  show ?thesis
    using evolves_trans[OF 1 2] l by (simp add: checkExpiredCharges_def)
qed

subsection \<open>deleteCharge and cleanupSweptCharges\<close>

lemma deleteCharge_evolves:
  "evolves no_edge UNIV (charges p) (charges (snd (deleteCharge ident p)))"
  by (auto simp: deleteCharge_def Let_def charges_unchanged evolves_same evolves_delete
      split: option.splits)

lemma cleanup_loop_evolves:
  "evolves no_edge UNIV (charges (fst acc))
     (charges (fst (foldl (\<lambda>acc entry.
                    if status (snd entry) = Swept
                    then ((fst acc)\<lparr>charges := AList.delete (fst entry) (charges (fst acc))\<rparr>,
                          snd acc + (1::nat))
                    else acc) acc entries)))"
proof (induction entries arbitrary: acc)
  case Nil
  show ?case by (simp add: evolves_same)
next
  case (Cons e es)
  let ?acc1 = "if status (snd e) = Swept
               then ((fst acc)\<lparr>charges := AList.delete (fst e) (charges (fst acc))\<rparr>, snd acc + (1::nat))
               else acc"
  have 1: "evolves no_edge UNIV (charges (fst acc)) (charges (fst ?acc1))"
    by (simp add: evolves_same evolves_delete)
  show ?case
    using evolves_comp[OF no_edge_comp 1 Cons.IH[of ?acc1]] by simp
qed

lemma cleanupSweptCharges_evolves:
  "evolves no_edge UNIV (charges p) (charges (snd (cleanupSweptCharges p)))"
proof -
  obtain p1 count where l: "foldl (\<lambda>acc entry.
                    if status (snd entry) = Swept
                    then ((fst acc)\<lparr>charges := AList.delete (fst entry) (charges (fst acc))\<rparr>,
                          snd acc + (1::nat))
                    else acc) (p, 0) (charges p) = (p1, count)"
    by (rule prod.exhaust)
  with cleanup_loop_evolves[of "(p, 0)" "charges p"] show ?thesis
    by (simp add: cleanupSweptCharges_def charges_unchanged)
qed

subsection \<open>Steps and runs\<close>

lemma step_evolves:
  assumes "\<not> is_create op" "store_ok p"
  shows "evolves forward UNIV (charges p) (charges (step L p op))"
proof (cases op)
  case (CreateCharge hex now options)
  with assms show ?thesis by simp
next
  case (HandlePayment now env payment)
  then show ?thesis by (simp add: handlePayment_evolves)
next
  case (SweepCharge env ident)
  then show ?thesis
    by (auto intro: evolves_mono[OF sweepCharge_evolves] simp: edges_forward)
next
  case (CheckExpiredCharges now envs)
  then show ?thesis by (simp add: checkExpiredCharges_evolves)
next
  case (CheckMissedPayments envs)
  then show ?thesis by (simp add: checkMissedPayments_evolves[OF assms(2)])
next
  case (DeleteCharge ident)
  then show ?thesis
    by (auto intro: evolves_mono[OF deleteCharge_evolves] simp: edges_forward)
next
  case CleanupSweptCharges
  then show ?thesis
    by (auto intro: evolves_mono[OF cleanupSweptCharges_evolves] simp: edges_forward)
next
  case (SaveTimerFires now)
  then show ?thesis by (simp add: charges_unchanged evolves_same)
qed

lemma step_evolves_any:
  assumes "\<not> is_create op"
  shows "evolves any_edge UNIV (charges p) (charges (step L p op))"
proof (cases op)
  case (CreateCharge hex now options)
  with assms show ?thesis by simp
next
  case (HandlePayment now env payment)
  then show ?thesis
    by (auto intro: evolves_mono[OF handlePayment_evolves] simp: any_edge_def)
next
  case (SweepCharge env ident)
  then show ?thesis
    by (auto intro: evolves_mono[OF sweepCharge_evolves] simp: any_edge_def)
next
  case (CheckExpiredCharges now envs)
  then show ?thesis
    by (auto intro: evolves_mono[OF checkExpiredCharges_evolves] simp: any_edge_def)
next
  case (CheckMissedPayments envs)
  then show ?thesis by (simp add: checkMissedPayments_evolves_any)
next
  case (DeleteCharge ident)
  then show ?thesis
    by (auto intro: evolves_mono[OF deleteCharge_evolves] simp: any_edge_def)
next
  case CleanupSweptCharges
  then show ?thesis
    by (auto intro: evolves_mono[OF cleanupSweptCharges_evolves] simp: any_edge_def)
next
  case (SaveTimerFires now)
  then show ?thesis by (simp add: charges_unchanged evolves_same)
qed

lemma set_update_subset: "set (AList.update k v al) \<subseteq> insert (k, v) (set al)"
  by (induction al) auto

lemma store_ok_evolves:
  assumes "evolves R K (charges p) (charges p')" "store_ok p"
  shows "store_ok p'"
proof -
  have d: "distinct (map fst (charges p'))"
    using assms by (simp add: evolves_def store_ok_def)
  have "k = charge_id c'" if "(k, c') \<in> set (charges p')" for k c'
  proof -
    from that d have "map_of (charges p') k = Some c'" by simp
    with assms(1) obtain c where c: "map_of (charges p) k = Some c" "charge_step R c c'"
      unfolding evolves_def by blast
    from c(1) have "(k, c) \<in> set (charges p)" by (rule map_of_SomeD)
    with assms(2) c(2) show ?thesis
      by (auto simp: store_ok_def list_all_iff charge_step_def)
  qed
  with d show ?thesis by (auto simp: store_ok_def list_all_iff)
qed

lemma ledgers_ok_iff:
  "ledgers_ok p \<longleftrightarrow> (\<forall>k c. map_of (charges p) k = Some c \<longrightarrow> ledger_ok c)"
proof
  assume l: "ledgers_ok p"
  show "\<forall>k c. map_of (charges p) k = Some c \<longrightarrow> ledger_ok c"
  proof (intro allI impI)
    fix k c assume m: "map_of (charges p) k = Some c"
    then have "k \<in> set (map fst (charges p))"
      by (auto dest: map_of_SomeD intro: rev_image_eqI)
    with l m show "ledger_ok c"
      by (auto simp: ledgers_ok_def list_all_iff)
  qed
next
  assume "\<forall>k c. map_of (charges p) k = Some c \<longrightarrow> ledger_ok c"
  then show "ledgers_ok p"
    by (auto simp: ledgers_ok_def list_all_iff split: option.splits)
qed

lemma ledgers_ok_evolves:
  assumes "evolves R K (charges p) (charges p')" "ledgers_ok p"
  shows "ledgers_ok p'"
  using assms unfolding ledgers_ok_iff evolves_def charge_step_def by blast

lemma moves_along_iff:
  "moves_along R p p' \<longleftrightarrow>
     (\<forall>k a b. status_of p k = Some a \<and> status_of p' k = Some b \<longrightarrow> a = b \<or> R a b)"
proof
  assume m: "moves_along R p p'"
  show "\<forall>k a b. status_of p k = Some a \<and> status_of p' k = Some b \<longrightarrow> a = b \<or> R a b"
  proof (intro allI impI)
    fix k a b assume s: "status_of p k = Some a \<and> status_of p' k = Some b"
    then have "k \<in> set (map fst (charges p))"
      by (auto simp: status_of_def dest: map_of_SomeD intro: rev_image_eqI)
    with m s show "a = b \<or> R a b"
      by (auto simp: moves_along_def list_all_iff)
  qed
next
  assume "\<forall>k a b. status_of p k = Some a \<and> status_of p' k = Some b \<longrightarrow> a = b \<or> R a b"
  then show "moves_along R p p'"
    by (auto simp: moves_along_def list_all_iff split: option.splits)
qed

lemma moves_along_evolves:
  assumes "evolves R K (charges p) (charges p')"
  shows "moves_along R p p'"
  unfolding moves_along_iff
proof (intro allI impI)
  fix k a b assume s: "status_of p k = Some a \<and> status_of p' k = Some b"
  then obtain c c' where c: "map_of (charges p) k = Some c" "status c = a"
    "map_of (charges p') k = Some c'" "status c' = b"
    by (auto simp: status_of_def)
  with assms obtain c0 where "map_of (charges p) k = Some c0" "charge_step R c0 c'"
    unfolding evolves_def by blast
  with c show "a = b \<or> R a b"
    by (auto simp: charge_step_def)
qed

lemma createCharge_charges:
  "charge_id (fst (createCharge L hex now options p)) = generateChargeId hex"
  "ledger_ok (fst (createCharge L hex now options p))"
  "receivedRaw (fst (createCharge L hex now options p)) = 0"
  "transactions (fst (createCharge L hex now options p)) = []"
  "charges (snd (createCharge L hex now options p))
     = AList.update (generateChargeId hex) (fst (createCharge L hex now options p)) (charges p)"
  by (simp_all add: createCharge_def Let_def charges_unchanged ledger_ok_def)

lemma createCharge_store_ok:
  assumes "store_ok p"
  shows "store_ok (snd (createCharge L hex now options p))"
proof -
  have "set (AList.update (generateChargeId hex) (fst (createCharge L hex now options p)) (charges p))
          \<subseteq> insert (generateChargeId hex, fst (createCharge L hex now options p)) (set (charges p))"
    by (rule set_update_subset)
  with assms show ?thesis
    by (auto simp: store_ok_def list_all_iff AList.distinct_update createCharge_charges)
qed

lemma createCharge_ledgers_ok:
  assumes "ledgers_ok p"
  shows "ledgers_ok (snd (createCharge L hex now options p))"
  using assms createCharge_charges(2)[of L hex now options p]
  unfolding ledgers_ok_iff
  by (auto simp: createCharge_charges(5) AList.update_conv' split: if_splits)

lemma step_store_ok:
  assumes "store_ok p"
  shows "store_ok (step L p op)"
proof (cases "is_create op")
  case True
  then obtain hex now options where "op = CreateCharge hex now options"
    by (cases op) auto
  with assms show ?thesis by (simp add: createCharge_store_ok)
next
  case False
  from store_ok_evolves[OF step_evolves[OF False assms] assms] show ?thesis .
qed

lemma step_ledgers_ok:
  assumes "ledgers_ok p"
  shows "ledgers_ok (step L p op)"
proof (cases "is_create op")
  case True
  then obtain hex now options where "op = CreateCharge hex now options"
    by (cases op) auto
  with assms show ?thesis by (simp add: createCharge_ledgers_ok)
next
  case False
  from ledgers_ok_evolves[OF step_evolves_any[OF False] assms] show ?thesis .
qed

lemma run_store_ok: "store_ok p \<Longrightarrow> store_ok (run L p ops)"
  unfolding run_def by (induction ops arbitrary: p) (simp_all add: step_store_ok)

lemma run_ledgers_ok: "ledgers_ok p \<Longrightarrow> ledgers_ok (run L p ops)"
  unfolding run_def by (induction ops arbitrary: p) (simp_all add: step_ledgers_ok)

lemma run_evolves:
  assumes "store_ok p" "list_all (\<lambda>op. \<not> is_create op) ops"
  shows "evolves forward UNIV (charges p) (charges (run L p ops))"
  using assms unfolding run_def
proof (induction ops arbitrary: p)
  case Nil
  show ?case by (simp add: evolves_same)
next
  case (Cons op ops)
  have 1: "evolves forward UNIV (charges p) (charges (step L p op))"
    using Cons.prems by (simp add: step_evolves)
  have 2: "evolves forward UNIV (charges (step L p op)) (charges (foldl (step L) (step L p op) ops))"
    using Cons.prems by (intro Cons.IH) (simp_all add: step_store_ok)
  show ?case using evolves_trans[OF 1 2] by simp
qed

lemma constructor_store_ok: "store_ok (constructor L config file)"
proof -
  have r: "store_ok (foldl register_charge q cs)" if "store_ok q" for q cs
    using that
  proof (induction cs arbitrary: q)
    case Nil
    then show ?case by simp
  next
    case (Cons c cs)
    have "set (AList.update (charge_id c) c (charges q)) \<subseteq> insert (charge_id c, c) (set (charges q))"
      by (rule set_update_subset)
    with Cons.prems have "store_ok (register_charge q c)"
      by (auto simp: store_ok_def list_all_iff AList.distinct_update register_charge_def)
    then show ?case by (simp add: Cons.IH)
  qed
  have e: "store_ok q" if "charges q = []" for q
    using that by (simp add: store_ok_def)
  show ?thesis
  proof (cases "file")
    case None
    then show ?thesis
      by (simp add: constructor_def Let_def loadPersistedState_def e)
  next
    case (Some state)
    have "store_ok (emit name detail (foldl register_charge q cs))" if "charges q = []" for q cs name detail
      using r[OF e[OF that], of cs] by (simp add: store_ok_def charges_unchanged)
    with Some show ?thesis
      by (simp add: constructor_def Let_def loadPersistedState_def)
  qed
qed

section \<open>The state machine\<close>

lemma sweep_blocked:
  assumes "receivePending_result env \<noteq> None \<or> getBalance_result env = 0 \<or> isl (send_result env)"
  shows "charges (snd (sweepCharge L env k p)) = charges p"
  using assms by (intro sweepCharge_failure_charges) (auto simp: sweep_succeeds_def)

lemma P1_store_ok: "store_ok P1"
  by (simp add: store_ok_def P1_fields charge0_fields)

lemma P1_swept:
  "charges (snd (sweepCharge L0 env0 ''chg_a'' P1))
     = [(''chg_a'', (swept_charge env0 charge0 ''h'')\<lparr>webhookSent := Some True\<rparr>)]"
proof -
  have "sweep_succeeds env0 ''h''"
    by (simp add: sweep_succeeds_def env0_fields)
  then have "sweepCharge L0 env0 ''chg_a'' P1 =
     (Inr (Some (''h'', getBalance_result env0)),
      if notifies charge0
      then callWebhook L0 env0 ''chg_a'' (swept_charge env0 charge0 ''h'') ''h'' (getBalance_result env0)
             (swept_state L0 env0 ''chg_a'' charge0 ''h'' P1)
      else swept_state L0 env0 ''chg_a'' charge0 ''h'' P1)"
    by (intro sweepCharge_success_unfold) (simp_all add: P1_fields charge0_fields)
  then show ?thesis
    by (simp add: notifies_def truthy_string_def truthy_bool_def charge0_fields callWebhook_fields
        swept_state_fields swept_charge_fields delivered_def env0_fields response_ok_def P1_fields)
qed

text \<open>
  Claim C1, as it is stated, fails: \<^verbatim>\<open>sweepCharge\<close> asks only whether the charge is
  already swept, so a sweep requested for a pending charge whose account holds funds
  takes the status from pending to swept at once, which is no edge of the graph of
  \<section>4.2.
\<close>

theorem sweep_of_pending_charge_counterexample:
  "\<not> moves_along edge P1 (snd (sweepCharge L0 env0 ''chg_a'' P1))"
  by (simp add: moves_along_def status_of_def P1_swept P1_fields charge0_fields
      swept_charge_fields edge_def)

text \<open>
  Claim C1, amended. Every assignment to the status moves it forward. A payment
  applied by \<^verbatim>\<open>handlePayment\<close>, and the recovery scan for a charge that is pending or
  partial, take pending to partial or completed and partial to completed. The loop
  of \<^verbatim>\<open>checkExpiredCharges\<close> takes pending and partial to expired. \<^verbatim>\<open>sweepCharge\<close>
  takes any status but swept to swept, and changes no charge unless
  \<^verbatim>\<open>receivePending\<close> and \<^verbatim>\<open>send\<close> resolve and the balance is not zero. Over any
  sequence of operations other than \<^verbatim>\<open>createCharge\<close>, the status of a charge moves
  forward only: nothing changes a swept charge, and a completed or an expired charge
  can only become swept. The sequence starts in a store that holds every key once
  and every charge under its own id; the constructor builds such a store and every
  operation keeps it so (\<open>constructor_store_ok\<close>, \<open>run_store_ok\<close>).
\<close>

theorem status_moves_forward:
  "moves_along payment_edge p (snd (applyPayment L now payment p))
   \<and> moves_along sweep_edge p (snd (sweepCharge L env chargeId p))
   \<and> (receivePending_result env \<noteq> None \<or> getBalance_result env = 0 \<or> isl (send_result env)
        \<longrightarrow> charges (snd (sweepCharge L env chargeId p)) = charges p)
   \<and> moves_along expiry_edge p (fst (foldl (expire_one now) (p, False, []) (map fst (charges p))))
   \<and> (status_of p key = Some Pending \<or> status_of p key = Some Partial
        \<longrightarrow> moves_along payment_edge p (snd (recoverCharge_apply L renv key p)))
   \<and> (store_ok p \<and> list_all (\<lambda>op. \<not> is_create op) ops
        \<longrightarrow> moves_along forward p (run L p ops))"
proof -
  have 1: "moves_along payment_edge p (snd (applyPayment L now payment p))"
    by (rule moves_along_evolves[OF applyPayment_evolves])
  have 2: "moves_along sweep_edge p (snd (sweepCharge L env chargeId p))"
    by (rule moves_along_evolves[OF sweepCharge_evolves])
  have 4: "moves_along expiry_edge p (fst (foldl (expire_one now) (p, False, []) (map fst (charges p))))"
    using moves_along_evolves[OF expire_loop_evolves[of "(p, False, [])" now "map fst (charges p)"]]
    by simp
  have 5: "moves_along payment_edge p (snd (recoverCharge_apply L renv key p))"
    if "status_of p key = Some Pending \<or> status_of p key = Some Partial"
  proof -
    have "evolves payment_edge {key} (charges p) (charges (snd (recoverCharge_apply L renv key p)))"
      by (rule evolves_strengthen[OF recoverCharge_apply_evolves])
         (use that in \<open>auto simp: recovery_edge_def status_of_def\<close>)
    then show ?thesis by (rule moves_along_evolves)
  qed
  have 6: "moves_along forward p (run L p ops)"
    if "store_ok p \<and> list_all (\<lambda>op. \<not> is_create op) ops"
    using that by (intro moves_along_evolves[OF run_evolves]) simp_all
  show ?thesis
    using 1 2 4 5 6 sweep_blocked[of env L chargeId p] by blast
qed

theorem status_moves_forward_witness:
  "getBalance_result (env0\<lparr>getBalance_result := 0\<rparr>) = 0
   \<and> charges (snd (sweepCharge L0 (env0\<lparr>getBalance_result := 0\<rparr>) ''chg_a'' P1)) = charges P1
   \<and> status_of P1 ''chg_a'' = Some Pending
   \<and> moves_along payment_edge P1 (snd (recoverCharge_apply L0 renv0 ''chg_a'' P1))
   \<and> store_ok P1 \<and> list_all (\<lambda>op. \<not> is_create op) [HandlePayment 2 env0 pay0]
   \<and> moves_along forward P1 (run L0 P1 [HandlePayment 2 env0 pay0])"
proof -
  have h1: "getBalance_result (env0\<lparr>getBalance_result := 0\<rparr>) = 0"
    by simp
  have h2: "status_of P1 ''chg_a'' = Some Pending"
    by (simp add: status_of_def P1_fields charge0_fields)
  have h3: "store_ok P1 \<and> list_all (\<lambda>op. \<not> is_create op) [HandlePayment 2 env0 pay0]"
    by (simp add: P1_store_ok)
  show ?thesis
    using h1 h2 h3
      status_moves_forward [of P1 L0 2 pay0 "env0\<lparr>getBalance_result := 0\<rparr>" "''chg_a''"
        "''chg_a''" renv0 "[HandlePayment 2 env0 pay0]"]
    by simp
qed

section \<open>The ledger of a charge\<close>

lemma receive_one_charges:
  assumes "map_of (charges p) key = Some charge"
  shows "charges (receive_one L key p (pb, None, t)) =
           AList.update key
             (charge\<lparr>transactions := transactions charge @
                       [\<lparr>tx_hash = pb_hash pb, tx_from = pb_source pb,
                         tx_amountRaw = pb_amount pb,
                         tx_amountNano = rawToNano L (pb_amount pb),
                         tx_timestamp = ValidDate t\<rparr>],
                     receivedRaw := receivedRaw charge + pb_amount pb,
                     receivedNano := rawToNano L (receivedRaw charge + pb_amount pb)\<rparr>)
             (charges p)"
    and "charges (receive_one L key p (pb, Some e, t)) = charges p"
  using assms by (simp_all add: receive_one_def Let_def charges_unchanged)

lemma constructor_empty: "charges (constructor L config None) = []"
  by (simp add: constructor_def loadPersistedState_def)

text \<open>
  Claim C2. A charge is created with nothing received and no transaction. Every
  operation of the processor keeps, for every charge of the store, the received
  amount equal to the sum of the amounts of its recorded transactions; so the
  equality holds after every run from an empty store. A payment that is applied
  (its address belongs to a pending or partial charge) appends exactly one
  transaction, carrying the amount of the payment, and adds that amount to the
  received amount; any other payment changes nothing. In the recovery scan a pending
  block that is received does the same, and one whose \<^verbatim>\<open>receive\<close> fails changes no
  charge.
\<close>

theorem received_equals_ledger:
  "(\<forall>charge q'. createCharge L hex born options q = (charge, q') \<longrightarrow>
       receivedRaw charge = 0 \<and> transactions charge = [] \<and> ledger_ok charge)
   \<and> (ledgers_ok p \<longrightarrow> ledgers_ok (step L p op))
   \<and> (ledgers_ok p \<longrightarrow> ledgers_ok (run L p ops))
   \<and> ledgers_ok (run L (constructor L config None) ops)
   \<and> (\<forall>key charge. entryByAddress p (pay_to payment) = Some (key, charge) \<and> active charge \<longrightarrow>
        (\<exists>charge'. map_of (charges (snd (applyPayment L now payment p))) key = Some charge'
           \<and> transactions charge' = transactions charge @
                 [\<lparr>tx_hash = pay_hash payment, tx_from = pay_from payment,
                   tx_amountRaw = pay_amount payment, tx_amountNano = pay_amountNano payment,
                   tx_timestamp = pay_timestamp payment\<rparr>]
           \<and> receivedRaw charge' = receivedRaw charge + pay_amount payment))
   \<and> (\<not> (\<exists>key charge. entryByAddress p (pay_to payment) = Some (key, charge) \<and> active charge)
        \<longrightarrow> applyPayment L now payment p = (Inr None, p))
   \<and> (\<forall>charge. map_of (charges p) k = Some charge \<longrightarrow>
        (\<exists>charge'. map_of (charges (receive_one L k p (pb, None, t))) k = Some charge'
           \<and> transactions charge' = transactions charge @
                 [\<lparr>tx_hash = pb_hash pb, tx_from = pb_source pb, tx_amountRaw = pb_amount pb,
                   tx_amountNano = rawToNano L (pb_amount pb), tx_timestamp = ValidDate t\<rparr>]
           \<and> receivedRaw charge' = receivedRaw charge + pb_amount pb)
        \<and> charges (receive_one L k p (pb, Some e, t)) = charges p)"
proof -
  have 1: "\<forall>charge q'. createCharge L hex born options q = (charge, q') \<longrightarrow>
       receivedRaw charge = 0 \<and> transactions charge = [] \<and> ledger_ok charge"
    using createCharge_charges(2,3,4)[of L hex born options q] by (metis fst_conv)
  have e: "ledgers_ok (constructor L config None)"
    by (simp add: ledgers_ok_def constructor_empty)
  have 5: "\<forall>key charge. entryByAddress p (pay_to payment) = Some (key, charge) \<and> active charge \<longrightarrow>
        (\<exists>charge'. map_of (charges (snd (applyPayment L now payment p))) key = Some charge'
           \<and> transactions charge' = transactions charge @
                 [\<lparr>tx_hash = pay_hash payment, tx_from = pay_from payment,
                   tx_amountRaw = pay_amount payment, tx_amountNano = pay_amountNano payment,
                   tx_timestamp = pay_timestamp payment\<rparr>]
           \<and> receivedRaw charge' = receivedRaw charge + pay_amount payment)"
    by (simp add: applyPayment_charges AList.update_conv')
  have 7: "\<forall>charge. map_of (charges p) k = Some charge \<longrightarrow>
        (\<exists>charge'. map_of (charges (receive_one L k p (pb, None, t))) k = Some charge'
           \<and> transactions charge' = transactions charge @
                 [\<lparr>tx_hash = pb_hash pb, tx_from = pb_source pb, tx_amountRaw = pb_amount pb,
                   tx_amountNano = rawToNano L (pb_amount pb), tx_timestamp = ValidDate t\<rparr>]
           \<and> receivedRaw charge' = receivedRaw charge + pb_amount pb)
        \<and> charges (receive_one L k p (pb, Some e, t)) = charges p"
    by (simp add: receive_one_charges AList.update_conv')
  show ?thesis
    using 1 5 7 step_ledgers_ok[of p L op] run_ledgers_ok[of p L ops]
      run_ledgers_ok[OF e, of L ops] applyPayment_ignored[of p payment L now]
    by blast
qed

theorem received_equals_ledger_witness:
  "createCharge L0 ''a'' 1 opts0 P0 = (charge0, P1) \<and> ledger_ok charge0
   \<and> ledgers_ok P1 \<and> ledgers_ok (step L0 P1 (HandlePayment 2 env0 pay0))
   \<and> entryByAddress P1 (pay_to pay0) = Some (''chg_a'', charge0) \<and> active charge0
   \<and> map_option receivedRaw (map_of (charges (snd (applyPayment L0 2 pay0 P1))) ''chg_a'') = Some 10
   \<and> map_of (charges P1) ''chg_a'' = Some charge0
   \<and> map_option receivedRaw (map_of (charges (receive_one L0 ''chg_a'' P1 (pb0, None, 2))) ''chg_a'') = Some 10"
proof -
  have h1: "createCharge L0 ''a'' 1 opts0 P0 = (charge0, P1)"
    by (simp add: P1_def P0_eq createCharge_def L0_def opts0_def charge0_def generateChargeId_def
        deriveAccount_def basic_defs Let_def increment_def new_Date_def plus_number_def
        time_value_def)
  have h2: "ledgers_ok P1"
    by (simp add: ledgers_ok_def P1_fields ledger_ok_def charge0_fields)
  have h3: "entryByAddress P1 (pay_to pay0) = Some (''chg_a'', charge0) \<and> active charge0"
    by (simp add: entryByAddress_def getChargeByAddress_def P1_fields pay0_def active_def
        charge0_fields)
  have h4: "map_of (charges P1) ''chg_a'' = Some charge0"
    by (simp add: P1_fields)
  show ?thesis
    using h1 h2 h3 h4
      received_equals_ledger [where L = L0 and hex = "''a''" and born = 1 and options = opts0
        and q = P0 and p = P1 and op = "HandlePayment 2 env0 pay0" and ops = "[]"
        and payment = pay0 and now = 2 and k = "''chg_a''" and pb = pb0 and t = 2]
    by (auto simp: charge0_fields pay0_def pb0_def)
qed

section \<open>Allocation of sub-accounts\<close>

lemma deriveAccount_ok:
  assumes "wallet_ok L w"
  shows "fst (deriveAccount L w i) = derived_address L w i"
    and "wallet_ok L (snd (deriveAccount L w i))"
  using assms
  by (auto simp: deriveAccount_def wallet_ok_def derived_address_def Let_def split: option.splits)

lemma deriveAccount_seed: "seed (snd (deriveAccount L w i)) = seed w"
  by (simp add: deriveAccount_def Let_def split: option.splits)

lemma new_BerryPayWallet_ok: "wallet_ok L (new_BerryPayWallet L s)"
  unfolding new_BerryPayWallet_def
  by (rule deriveAccount_ok(2)) (simp add: wallet_ok_def)

lemma increment_below: "n < 2 ^ 53 \<Longrightarrow> increment n = n + 1"
  by (simp add: increment_def)

lemma increment_at_limit: "increment (2 ^ 53) = 2 ^ 53"
  by (simp add: increment_def)

lemma createCharge_allocates:
  "nextAccountIndex (snd (createCharge L hex now options p)) = increment (nextAccountIndex p)"
  "wallet (snd (createCharge L hex now options p))
     = snd (deriveAccount L (wallet p) (nextAccountIndex p))"
  "accountIndex (fst (createCharge L hex now options p)) = nextAccountIndex p"
  "address (fst (createCharge L hex now options p))
     = fst (deriveAccount L (wallet p) (nextAccountIndex p))"
  by (simp_all add: createCharge_def Let_def basic_defs)

lemma derived_address_seed:
  "seed w' = seed w \<Longrightarrow> derived_address L w' = derived_address L w"
  by (simp add: derived_address_def fun_eq_iff)

lemma createCharges_props:
  assumes "createCharges L requests p = (cs, p')"
    and "nextAccountIndex p + length requests \<le> 2 ^ 53"
  shows "nextAccountIndex p' = nextAccountIndex p + length requests
    \<and> seed (wallet p') = seed (wallet p)
    \<and> (wallet_ok L (wallet p) \<longrightarrow> wallet_ok L (wallet p'))
    \<and> map accountIndex cs = [nextAccountIndex p ..< nextAccountIndex p + length requests]
    \<and> (wallet_ok L (wallet p) \<longrightarrow>
          (\<forall>c\<in>set cs. address c = derived_address L (wallet p) (accountIndex c)))"
  using assms
proof (induction requests arbitrary: p cs p')
  case Nil
  then show ?case by simp
next
  case (Cons request requests)
  obtain hex now options where rq: "request = (hex, now, options)"
    by (cases request)
  obtain c p1 where c1: "createCharge L hex now options p = (c, p1)"
    by (cases "createCharge L hex now options p")
  obtain rs p2 where c2: "createCharges L requests p1 = (rs, p2)"
    by (cases "createCharges L requests p1")
  from Cons.prems(1) rq c1 c2 have res: "cs = c # rs" "p' = p2"
    by simp_all
  have below: "nextAccountIndex p < 2 ^ 53"
    using Cons.prems(2) by simp
  have n1: "nextAccountIndex p1 = nextAccountIndex p + 1"
    using createCharge_allocates(1)[of L hex now options p] c1 increment_below[OF below] by simp
  have w1: "wallet p1 = snd (deriveAccount L (wallet p) (nextAccountIndex p))"
    using createCharge_allocates(2)[of L hex now options p] c1 by simp
  have c: "accountIndex c = nextAccountIndex p"
    "address c = fst (deriveAccount L (wallet p) (nextAccountIndex p))"
    using createCharge_allocates(3,4)[of L hex now options p] c1 by simp_all
  have s1: "seed (wallet p1) = seed (wallet p)"
    by (simp add: w1 deriveAccount_seed)
  have ok1: "wallet_ok L (wallet p) \<Longrightarrow> wallet_ok L (wallet p1)"
    by (simp add: w1 deriveAccount_ok)
  have da: "derived_address L (wallet p1) = derived_address L (wallet p)"
    by (rule derived_address_seed[OF s1])
  have ih: "nextAccountIndex p2 = nextAccountIndex p1 + length requests
    \<and> seed (wallet p2) = seed (wallet p1)
    \<and> (wallet_ok L (wallet p1) \<longrightarrow> wallet_ok L (wallet p2))
    \<and> map accountIndex rs = [nextAccountIndex p1 ..< nextAccountIndex p1 + length requests]
    \<and> (wallet_ok L (wallet p1) \<longrightarrow>
          (\<forall>c\<in>set rs. address c = derived_address L (wallet p1) (accountIndex c)))"
    using Cons.prems(2) n1 by (intro Cons.IH[OF c2]) simp
  have u: "[nextAccountIndex p ..< nextAccountIndex p + length (request # requests)]
              = nextAccountIndex p # [nextAccountIndex p1 ..< nextAccountIndex p1 + length requests]"
    by (simp add: n1 upt_rec)
  show ?case
    unfolding res u using ih n1 s1 ok1 da c
    by (auto simp: deriveAccount_ok)
qed

lemma two_creates_at_limit:
  assumes "nextAccountIndex p = 2 ^ 53"
  shows "map accountIndex (fst (createCharges L [(h1, t1, o1), (h2, t2, o2)] p)) = [2 ^ 53, 2 ^ 53]"
    and "map address (fst (createCharges L [(h1, t1, o1), (h2, t2, o2)] p))
           = [fst (deriveAccount L (wallet p) (2 ^ 53)), fst (deriveAccount L (wallet p) (2 ^ 53))]"
proof -
  obtain c1 p1 where 1: "createCharge L h1 t1 o1 p = (c1, p1)"
    by (cases "createCharge L h1 t1 o1 p")
  obtain c2 p2 where 2: "createCharge L h2 t2 o2 p1 = (c2, p2)"
    by (cases "createCharge L h2 t2 o2 p1")
  have n1: "nextAccountIndex p1 = 2 ^ 53"
    using createCharge_allocates(1)[of L h1 t1 o1 p] 1 assms increment_at_limit by simp
  have w1: "wallet p1 = snd (deriveAccount L (wallet p) (2 ^ 53))"
    using createCharge_allocates(2)[of L h1 t1 o1 p] 1 assms by simp
  have a: "accountIndex c1 = 2 ^ 53" "address c1 = fst (deriveAccount L (wallet p) (2 ^ 53))"
    using createCharge_allocates(3,4)[of L h1 t1 o1 p] 1 assms by simp_all
  have b: "accountIndex c2 = 2 ^ 53" "address c2 = fst (deriveAccount L (wallet p) (2 ^ 53))"
    using createCharge_allocates(3,4)[of L h2 t2 o2 p1] 2 n1 w1
    by (simp_all add: deriveAccount_again)
  show "map accountIndex (fst (createCharges L [(h1, t1, o1), (h2, t2, o2)] p)) = [2 ^ 53, 2 ^ 53]"
    using 1 2 a b by simp
  show "map address (fst (createCharges L [(h1, t1, o1), (h2, t2, o2)] p))
           = [fst (deriveAccount L (wallet p) (2 ^ 53)), fst (deriveAccount L (wallet p) (2 ^ 53))]"
    using 1 2 a b by simp
qed

text \<open>
  Claim C9, as it is stated, fails. An account index is a JavaScript number, and
  \<^verbatim>\<open>this.nextAccountIndex++\<close> leaves \<open>2^53\<close> as it is. A processor configured with
  the starting index \<open>2^53\<close> gives two charges created one after the other the same
  account index, and so the same address.
\<close>

theorem index_stops_counting_counterexample:
  "map accountIndex
     (fst (createCharges L0 [(''a'', 1, opts0), (''b'', 2, opts0)] (constructor L0 cfg_big None)))
     = [2 ^ 53, 2 ^ 53]
   \<and> \<not> distinct (map address
     (fst (createCharges L0 [(''a'', 1, opts0), (''b'', 2, opts0)] (constructor L0 cfg_big None))))"
proof -
  have n: "nextAccountIndex (constructor L0 cfg_big None) = 2 ^ 53"
    by (simp add: constructor_def loadPersistedState_def cfg_big_def cfg0_def)
  show ?thesis
    unfolding two_creates_at_limit[OF n] by simp
qed

text \<open>
  Claim C9, amended. Every \<^verbatim>\<open>createCharge\<close> returns a charge, gives it the index
  \<^verbatim>\<open>nextAccountIndex\<close>, and increments \<^verbatim>\<open>nextAccountIndex\<close> once, by exactly one
  while it is below \<open>2^53\<close>. So as long as the indices stay below \<open>2^53\<close>, N calls
  in sequence return N charges whose indices are the N consecutive indices from the
  first one on, strictly increasing and pairwise distinct. For a wallet whose cache
  holds what the library derives (\<open>new_BerryPayWallet_ok\<close>), the address of each
  charge is the address the library derives for its index; the N addresses are
  pairwise distinct exactly when the library derives no address twice for these
  indices.
\<close>

theorem createCharge_indices:
  assumes "createCharges L requests p = (cs, p')"
    and "nextAccountIndex p + length requests \<le> 2 ^ 53"
  shows "(\<forall>hex now options c p1. createCharge L hex now options p = (c, p1) \<longrightarrow>
            accountIndex c = nextAccountIndex p
            \<and> nextAccountIndex p1 = increment (nextAccountIndex p)
            \<and> (nextAccountIndex p < 2 ^ 53 \<longrightarrow> nextAccountIndex p1 = nextAccountIndex p + 1))
    \<and> length cs = length requests
    \<and> nextAccountIndex p' = nextAccountIndex p + length requests
    \<and> map accountIndex cs = [nextAccountIndex p ..< nextAccountIndex p + length requests]
    \<and> sorted_wrt (<) (map accountIndex cs)
    \<and> distinct (map accountIndex cs)
    \<and> (wallet_ok L (wallet p) \<longrightarrow>
          map address cs = map (derived_address L (wallet p)) (map accountIndex cs)
          \<and> (distinct (map address cs) \<longleftrightarrow>
                inj_on (derived_address L (wallet p))
                  {nextAccountIndex p ..< nextAccountIndex p + length requests}))"
proof -
  note props = createCharges_props[OF assms]
  have 1: "\<forall>hex now options c p1. createCharge L hex now options p = (c, p1) \<longrightarrow>
            accountIndex c = nextAccountIndex p
            \<and> nextAccountIndex p1 = increment (nextAccountIndex p)
            \<and> (nextAccountIndex p < 2 ^ 53 \<longrightarrow> nextAccountIndex p1 = nextAccountIndex p + 1)"
    using createCharge_allocates(1,3)[of L _ _ _ p] increment_below[of "nextAccountIndex p"]
    by (metis fst_conv snd_conv)
  have ix: "map accountIndex cs = [nextAccountIndex p ..< nextAccountIndex p + length requests]"
    using props by simp
  have len: "length cs = length requests"
    using arg_cong[OF ix, of length] by simp
  have so: "sorted_wrt (<) (map accountIndex cs)" and d: "distinct (map accountIndex cs)"
    unfolding ix by simp_all
  have ad: "map address cs = map (derived_address L (wallet p)) (map accountIndex cs)"
    if "wallet_ok L (wallet p)"
  proof -
    from props that
    have "\<forall>c\<in>set cs. address c = derived_address L (wallet p) (accountIndex c)"
      by blast
    then show ?thesis by simp
  qed
  have da: "distinct (map address cs) \<longleftrightarrow>
                inj_on (derived_address L (wallet p))
                  {nextAccountIndex p ..< nextAccountIndex p + length requests}"
    if "wallet_ok L (wallet p)"
  proof -
    from ad[OF that]
    have "map address cs = map (derived_address L (wallet p))
                             [nextAccountIndex p ..< nextAccountIndex p + length requests]"
      by (simp only: ix)
    then show ?thesis
      by (simp add: distinct_map)
  qed
  show ?thesis
    using 1 props len so d da ad by blast
qed

theorem createCharge_indices_witness:
  "createCharges L0 [(''a'', 1, opts0), (''b'', 2, opts0)] P0
     = (fst (createCharges L0 [(''a'', 1, opts0), (''b'', 2, opts0)] P0),
        snd (createCharges L0 [(''a'', 1, opts0), (''b'', 2, opts0)] P0))
   \<and> nextAccountIndex P0 + length [(''a'', 1::int, opts0), (''b'', 2, opts0)] \<le> 2 ^ 53
   \<and> nextAccountIndex P0 < 2 ^ 53
   \<and> wallet_ok L0 (wallet P0)
   \<and> map accountIndex (fst (createCharges L0 [(''a'', 1, opts0), (''b'', 2, opts0)] P0)) = [1, 2]
   \<and> distinct (map address (fst (createCharges L0 [(''a'', 1, opts0), (''b'', 2, opts0)] P0)))"
proof -
  have h1: "createCharges L0 [(''a'', 1, opts0), (''b'', 2, opts0)] P0
     = (fst (createCharges L0 [(''a'', 1, opts0), (''b'', 2, opts0)] P0),
        snd (createCharges L0 [(''a'', 1, opts0), (''b'', 2, opts0)] P0))"
    by simp
  have h2: "nextAccountIndex P0 + length [(''a'', 1::int, opts0), (''b'', 2, opts0)] \<le> 2 ^ 53"
    by (simp add: P0_eq)
  have h3: "wallet_ok L0 (wallet P0)"
    by (simp add: wallet_ok_def P0_eq)
  have h4: "inj_on (derived_address L0 (wallet P0))
              {nextAccountIndex P0 ..< nextAccountIndex P0 + length [(''a'', 1::int, opts0), (''b'', 2, opts0)]}"
    by (simp add: inj_on_def derived_address_def L0_def)
  have h5: "[nextAccountIndex P0 ..< nextAccountIndex P0 + length [(''a'', 1::int, opts0), (''b'', 2, opts0)]]
              = [1, 2]"
    by (simp add: P0_eq upt_conv_Cons)
  have h6: "nextAccountIndex P0 < 2 ^ 53"
    by (simp add: P0_eq)
  show ?thesis
    using h2 h3 h4 h5 h6 createCharge_indices [OF h1 h2]
    by (simp del: createCharges.simps)
qed

section \<open>The persisted snapshot\<close>

lemma revive_date_toJSON:
  assumes "dates_roundtrip L" "valid_date d"
  shows "revive_date L (toJSON_date L d) = d"
  using assms
  by (cases d) (simp_all add: revive_date_def toJSON_date_def dates_roundtrip_def valid_date_def)


lemma revive_tx_toJSON:
  assumes "dates_roundtrip L" "valid_date (tx_timestamp t)"
  shows "revive_tx L (toJSON_tx L t) = t"
  using assms by (cases t) (simp add: revive_tx_def toJSON_tx_def revive_date_toJSON)

lemma revive_optional_toJSON:
  assumes "dates_roundtrip L" "valid_option d"
  shows "revive_optional L (map_option (toISOString L) d) = d"
  using assms
  by (cases d) (simp_all add: revive_optional_def dates_roundtrip_def valid_option_def)

lemma revive_charge_toJSON:
  assumes "dates_roundtrip L" "charge_dates_valid c"
  shows "revive_charge L (toJSON_charge L c) = c"
proof -
  have "map (revive_tx L \<circ> toJSON_tx L) ts = ts" if "list_all (\<lambda>t. valid_date (tx_timestamp t)) ts" for ts
    using that by (induction ts) (simp_all add: revive_tx_toJSON[OF assms(1)])
  with assms show ?thesis
    by (cases c)
       (simp add: revive_charge_def toJSON_charge_def revive_optional_toJSON revive_date_toJSON
          dates_roundtrip_def charge_dates_valid_def)
qed

lemma load_save:
  assumes "dates_roundtrip L" "dates_valid state"
  shows "loadPersistedState L (savePersistedState L state) = Some state"
proof -
  have "map (revive_charge L \<circ> toJSON_charge L) cs = cs" if "list_all charge_dates_valid cs" for cs
    using that by (induction cs) (simp_all add: revive_charge_toJSON[OF assms(1)])
  with assms(2) show ?thesis
    by (cases state)
       (simp add: loadPersistedState_def savePersistedState_def stringify_def dates_valid_def)
qed





lemma L0_dates_roundtrip: "dates_roundtrip L0"
  by (auto simp: dates_roundtrip_def L0_def)





section \<open>The address index after a restart\<close>

lemma L0_rawToNano: "rawToNano L0 n = ''n''"
  by (simp add: L0_def)

lemma P1_paid_charges:
  "charges (step L0 P1 (HandlePayment 2 env0 pay0))
     = [(''chg_a'',
         charge0\<lparr>transactions := [\<lparr>tx_hash = ''t'', tx_from = ''nano_x'', tx_amountRaw = 10,
                                    tx_amountNano = ''1'', tx_timestamp = ValidDate 2\<rparr>],
                  receivedRaw := 10, receivedNano := ''n'', status := Swept,
                  completedAt := Some 2, sweptAt := Some 3, sweepTxHash := Some ''h'',
                  webhookSent := Some True\<rparr>)]"
  "addressToChargeId (step L0 P1 (HandlePayment 2 env0 pay0)) ''nano_1'' = None"
  "nextAccountIndex (step L0 P1 (HandlePayment 2 env0 pay0)) = 2"
  "saveDebounceTimer (step L0 P1 (HandlePayment 2 env0 pay0)) = False"
  by (simp_all add: handlePayment_def applyPayment_def entryByAddress_def getChargeByAddress_def
      P1_fields pay0_def charge0_def Let_def basic_defs sweepCharge_def env0_def L0_def
      getAddress_def deriveAccount_def truthy_string_def truthy_bool_def callWebhook_def
      response_ok_def)

lemma P1_paid_disk:
  "disk (step L0 P1 (HandlePayment 2 env0 pay0))
     = savePersistedState L0 (current_state L0 4 (step L0 P1 (HandlePayment 2 env0 pay0)))"
  unfolding current_state_def P1_paid_charges
  by (simp add: handlePayment_def applyPayment_def entryByAddress_def getChargeByAddress_def
      P1_fields pay0_def charge0_def Let_def basic_defs sweepCharge_def env0_def
      getAddress_def deriveAccount_def truthy_string_def truthy_bool_def callWebhook_def
      response_ok_def current_state_def L0_rawToNano)

lemma P1_paid_dates:
  "dates_valid (current_state L0 4 (step L0 P1 (HandlePayment 2 env0 pay0)))"
  unfolding current_state_def P1_paid_charges
  by (simp add: dates_valid_def charge_dates_valid_def charge0_def time_value_def valid_date_def
      valid_option_def)

lemma register_all_addresses:
  assumes "a \<in> address ` set cs \<or> addressToChargeId q a \<noteq> None"
  shows "addressToChargeId (foldl register_charge q cs) a \<noteq> None"
  using assms
proof (induction cs arbitrary: q)
  case Nil
  then show ?case by simp
next
  case (Cons c cs)
  from Cons.prems
  have "a \<in> address ` set cs \<or> addressToChargeId (register_charge q c) a \<noteq> None"
    by (auto simp: register_charge_def)
  then show ?case by (simp add: Cons.IH)
qed

lemma constructor_registers_all:
  assumes "c \<in> set (ps_charges state)"
  shows "addressToChargeId (constructor L config (Some state)) (address c) \<noteq> None"
proof -
  have "address (revive_charge L c) = address c"
    by (simp add: revive_charge_def)
  with assms have "address c \<in> address ` set (map (revive_charge L) (ps_charges state))"
    by (metis image_eqI image_set)
  then show ?thesis
    by (simp add: constructor_def loadPersistedState_def Let_def emit_def register_all_addresses)
qed

text \<open>
  Claim C3 fails after a restart. The charge of the concrete processor is paid in
  full and swept by the auto-sweep: its address leaves the address index and the
  file is written. A processor constructed on that file holds the charge, swept, and
  has its address in the address index again: the constructor registers the address
  of every charge of the snapshot, whatever its status.
\<close>

theorem restart_registers_swept_address:
  "status_of (step L0 P1 (HandlePayment 2 env0 pay0)) ''chg_a'' = Some Swept
   \<and> addressToChargeId (step L0 P1 (HandlePayment 2 env0 pay0)) ''nano_1'' = None
   \<and> status_of (constructor L0 cfg0 (disk (step L0 P1 (HandlePayment 2 env0 pay0)))) ''chg_a''
       = Some Swept
   \<and> addressToChargeId (constructor L0 cfg0 (disk (step L0 P1 (HandlePayment 2 env0 pay0))))
       ''nano_1'' = Some ''chg_a''"
proof -
  let ?P2 = "step L0 P1 (HandlePayment 2 env0 pay0)"
  have l: "loadPersistedState L0 (disk ?P2) = Some (current_state L0 4 ?P2)"
    by (simp only: P1_paid_disk load_save[OF L0_dates_roundtrip P1_paid_dates])
  have c: "constructor L0 cfg0 (disk ?P2)
             = emit ''state:loaded'' []
                 (foldl register_charge
                    \<lparr>wallet = cfg_wallet cfg0, charges = [], addressToChargeId = Map.empty,
                      nextAccountIndex = 2, mainAccountIndex = 0, autoSweep = True,
                      saveDebounceTimer = False, disk = disk ?P2, trace = []\<rparr>
                    (map snd (charges ?P2)))"
    by (simp add: constructor_def l Let_def current_state_def P1_paid_charges(3) cfg0_def
        del: step.simps)
  show ?thesis
    unfolding c
    by (simp add: status_of_def P1_paid_charges emit_def register_charge_def charge0_def
        del: step.simps)
qed

end
